theory Spec2Isabelle
  imports Main "HOL-Library.AList" "HOL-Library.List_Lexorder" "HOL-Library.Char_ord"
    "HOL-Library.Multiset"
begin

section \<open>Data model\<close>

text \<open>
  The posts slice (\<^verbatim>\<open>src/07_lesson/src/features/posts/postsSlice.js\<close>) caches posts
  fetched from a REST server. A post is a JavaScript object; the slice reads and writes
  three of its properties (\<^verbatim>\<open>id\<close>, \<^verbatim>\<open>date\<close>, \<^verbatim>\<open>reactions\<close>) and carries the others along.
  An id is a number or a string. A date is absent (\<^verbatim>\<open>undefined\<close>), \<^verbatim>\<open>null\<close> or a string; the
  reactions are absent or \<^verbatim>\<open>null\<close> (both \<open>None\<close>: the slice treats them alike) or an object
  of the five counters. A response with values of other types there is outside the
  model.
\<close>

datatype entity_id = IdNum int | IdStr string

datatype date_value = DateUndefined | DateNull | DateString string

record reaction_counts =
  thumbsUp :: int
  wow :: int
  heart :: int
  rocket :: int
  coffee :: int

datatype jsval =
  JUndefined | JNull | JBool bool | JNum int | JStr string | JObj "(string \<times> jsval) list"

type_synonym js_object = "(string \<times> jsval) list"

record post =
  post_id :: entity_id
  date :: date_value
  reactions :: "reaction_counts option"
  props :: js_object

text \<open>The only exception the slice's own code can raise.\<close>

datatype error = TypeError

text \<open>
  The normalized state of the entity adapter: \<^verbatim>\<open>{ ids: [], entities: {} }\<close>. The
  \<^verbatim>\<open>entities\<close> object is an association list in insertion order. Its keys are strings,
  as the keys of every object are: \<^verbatim>\<open>entities[id]\<close> converts the id to its property key,
  a string to itself and a number by the built-in conversion of a number to a string,
  here \<open>numberToString\<close>.
\<close>

record entity_state =
  ids :: "entity_id list"
  entities :: "(string \<times> post) list"

definition propertyKey :: "(int \<Rightarrow> string) \<Rightarrow> entity_id \<Rightarrow> string" where
  "propertyKey numberToString i = (case i of IdNum n \<Rightarrow> numberToString n | IdStr k \<Rightarrow> k)"

section \<open>The shaping step of the two queries\<close>

text \<open>
  \<^verbatim>\<open>sub(date, { minutes: m })\<close> of date-fns, on milliseconds since the epoch.
\<close>

definition sub_minutes :: "int \<Rightarrow> nat \<Rightarrow> int" where
  "sub_minutes t m = t - 60000 * int m"

text \<open>\<^verbatim>\<open>!post?.date\<close>: the property is absent, \<^verbatim>\<open>null\<close> or the empty string.\<close>

definition falsy :: "date_value \<Rightarrow> bool" where
  "falsy d = (d = DateUndefined \<or> d = DateNull \<or> d = DateString [])"

definition zeroReactions :: reaction_counts where
  "zeroReactions = \<lparr>thumbsUp = 0, wow = 0, heart = 0, rocket = 0, coffee = 0\<rparr>"

text \<open>
  The callback of \<^verbatim>\<open>responseData.map\<close>, for a post that is an object. The counter
  \<^verbatim>\<open>min\<close> of the enclosing function is passed in and returned. \<open>toISOString\<close> is the
  built-in formatter of a \<^verbatim>\<open>Date\<close>, and \<open>newDate k\<close> is what the clock reads (milliseconds
  since the epoch) at the call of \<^verbatim>\<open>new Date()\<close> made while the counter is \<open>k\<close>: the
  callback reads the clock once for every post it dates, and increments the counter
  with each reading.
\<close>

definition backfill :: "(int \<Rightarrow> string) \<Rightarrow> (nat \<Rightarrow> int) \<Rightarrow> nat \<Rightarrow> post \<Rightarrow> post \<times> nat" where
  "backfill toISOString newDate mins p =
     (let (p1, mins1) =
            (if falsy (date p)
             then (p\<lparr>date := DateString (toISOString (sub_minutes (newDate mins) mins))\<rparr>, mins + 1)
             else (p, mins));
          p2 = (if reactions p1 = None then p1\<lparr>reactions := Some zeroReactions\<rparr> else p1)
      in (p2, mins1))"

text \<open>
  \<^verbatim>\<open>responseData.map(post => ...)\<close>. An element of the response that is \<^verbatim>\<open>null\<close> is
  \<open>None\<close>: there \<^verbatim>\<open>!post?.date\<close> holds and the assignment \<^verbatim>\<open>post.date = ...\<close> throws.
\<close>

fun loadedPosts ::
  "(int \<Rightarrow> string) \<Rightarrow> (nat \<Rightarrow> int) \<Rightarrow> nat \<Rightarrow> post option list \<Rightarrow> error + post list" where
  "loadedPosts toISOString newDate mins [] = Inr []"
| "loadedPosts toISOString newDate mins (None # rest) = Inl TypeError"
| "loadedPosts toISOString newDate mins (Some p # rest) =
     (case backfill toISOString newDate mins p of
        (p', mins') \<Rightarrow>
          (case loadedPosts toISOString newDate mins' rest of
             Inl e \<Rightarrow> Inl e
           | Inr ps \<Rightarrow> Inr (p' # ps)))"

section \<open>The entity adapter\<close>

text \<open>
  What \<^verbatim>\<open>a.date\<close> is as the argument of \<^verbatim>\<open>localeCompare\<close>, which converts it to a
  string.
\<close>

definition dateText :: "post \<Rightarrow> string" where
  "dateText a =
     (case date a of
        DateUndefined \<Rightarrow> ''undefined''
      | DateNull \<Rightarrow> ''null''
      | DateString d \<Rightarrow> d)"

text \<open>
  \<^verbatim>\<open>sortComparer: (a, b) => b.date.localeCompare(a.date)\<close>. The method call throws
  when \<^verbatim>\<open>b.date\<close> is absent or \<^verbatim>\<open>null\<close>. \<open>localeCompare\<close> is the built-in comparison of two
  strings by the collation of the locale: \<open>localeCompare s t\<close> is \<^verbatim>\<open>s.localeCompare(t)\<close>,
  negative, zero or positive.
\<close>

definition sortComparer :: "(string \<Rightarrow> string \<Rightarrow> int) \<Rightarrow> post \<Rightarrow> post \<Rightarrow> error + int" where
  "sortComparer localeCompare a b =
     (case date b of
        DateUndefined \<Rightarrow> Inl TypeError
      | DateNull \<Rightarrow> Inl TypeError
      | DateString db \<Rightarrow> Inr (localeCompare db (dateText a)))"

text \<open>
  Modelled from the spec: the comparator-driven stable sort of the entity adapter
  (\<^verbatim>\<open>createEntityAdapter\<close> of Redux Toolkit), which is not under \<^verbatim>\<open>src/\<close>. The spec asks
  for a stable sort by the comparator; this is insertion sort, which puts an element
  before the first one it does not come after.
\<close>

fun insert_by :: "('a \<Rightarrow> 'a \<Rightarrow> error + int) \<Rightarrow> 'a \<Rightarrow> 'a list \<Rightarrow> error + 'a list" where
  "insert_by cmp x [] = Inr [x]"
| "insert_by cmp x (y # ys) =
     (case cmp x y of
        Inl e \<Rightarrow> Inl e
      | Inr c \<Rightarrow>
          if c \<le> 0 then Inr (x # y # ys)
          else (case insert_by cmp x ys of
                  Inl e \<Rightarrow> Inl e
                | Inr zs \<Rightarrow> Inr (y # zs)))"

fun sort_by :: "('a \<Rightarrow> 'a \<Rightarrow> error + int) \<Rightarrow> 'a list \<Rightarrow> error + 'a list" where
  "sort_by cmp [] = Inr []"
| "sort_by cmp (x # xs) =
     (case sort_by cmp xs of
        Inl e \<Rightarrow> Inl e
      | Inr ys \<Rightarrow> insert_by cmp x ys)"

text \<open>
  Modelled from the spec: \<^verbatim>\<open>getInitialState\<close> and \<^verbatim>\<open>setAll\<close> of the entity adapter,
  which are not under \<^verbatim>\<open>src/\<close>. The spec (Entity Store): the initial snapshot is empty;
  \<open>setAll\<close> replaces \<^verbatim>\<open>ids\<close> and \<^verbatim>\<open>entities\<close> wholesale and re-sorts \<^verbatim>\<open>ids\<close> by the
  comparator, \<^verbatim>\<open>ids\<close> holding exactly the keys of \<^verbatim>\<open>entities\<close> with no duplicate and ties
  in original insertion order. A record is stored under the property key of its \<^verbatim>\<open>id\<close>; a
  later record with the same key replaces the earlier one in its place.
\<close>

definition getInitialState :: entity_state where
  "getInitialState = \<lparr>ids = [], entities = []\<rparr>"

definition setAll ::
  "(int \<Rightarrow> string) \<Rightarrow> (post \<Rightarrow> post \<Rightarrow> error + int) \<Rightarrow> entity_state \<Rightarrow> post list
     \<Rightarrow> error + entity_state" where
  "setAll numberToString cmp state records =
     (let es = foldl (\<lambda>al r. AList.update (propertyKey numberToString (post_id r)) r al) [] records
      in case sort_by cmp (map snd es) of
           Inl e \<Rightarrow> Inl e
         | Inr sorted_posts \<Rightarrow> Inr \<lparr>ids = map post_id sorted_posts, entities = es\<rparr>)"

text \<open>
  \<^verbatim>\<open>const postsAdapter = createEntityAdapter({ sortComparer })\<close> and
  \<^verbatim>\<open>const initialState = postsAdapter.getInitialState()\<close>.
\<close>

definition initialState :: entity_state where
  "initialState = getInitialState"

definition postsAdapter_setAll ::
  "(int \<Rightarrow> string) \<Rightarrow> (string \<Rightarrow> string \<Rightarrow> int) \<Rightarrow> entity_state \<Rightarrow> post list
     \<Rightarrow> error + entity_state" where
  "postsAdapter_setAll numberToString localeCompare =
     setAll numberToString (sortComparer localeCompare)"

text \<open>
  \<^verbatim>\<open>transformResponse\<close> of \<^verbatim>\<open>getPosts\<close> and of \<^verbatim>\<open>getPostsByUserId\<close>: the source has the
  same body twice, with \<^verbatim>\<open>let min = 1\<close>. The built-ins the adapter needs come first.
\<close>

definition getPosts_transformResponse ::
  "(int \<Rightarrow> string) \<Rightarrow> (string \<Rightarrow> string \<Rightarrow> int) \<Rightarrow> (int \<Rightarrow> string) \<Rightarrow> (nat \<Rightarrow> int)
     \<Rightarrow> post option list \<Rightarrow> error + entity_state" where
  "getPosts_transformResponse numberToString localeCompare toISOString newDate responseData =
     (case loadedPosts toISOString newDate 1 responseData of
        Inl e \<Rightarrow> Inl e
      | Inr ps \<Rightarrow> postsAdapter_setAll numberToString localeCompare initialState ps)"

definition getPostsByUserId_transformResponse ::
  "(int \<Rightarrow> string) \<Rightarrow> (string \<Rightarrow> string \<Rightarrow> int) \<Rightarrow> (int \<Rightarrow> string) \<Rightarrow> (nat \<Rightarrow> int)
     \<Rightarrow> post option list \<Rightarrow> error + entity_state" where
  "getPostsByUserId_transformResponse numberToString localeCompare toISOString newDate responseData =
     (case loadedPosts toISOString newDate 1 responseData of
        Inl e \<Rightarrow> Inl e
      | Inr ps \<Rightarrow> postsAdapter_setAll numberToString localeCompare initialState ps)"

section \<open>Tags\<close>

text \<open>
  A tag is \<^verbatim>\<open>{ type, id }\<close>. The tag of the whole list is \<^verbatim>\<open>{ type: 'Post', id: "LIST" }\<close>:
  its id is the string \<^verbatim>\<open>"LIST"\<close>, a value of the type of the ids of posts.
\<close>

record tag =
  tag_type :: string
  tag_id :: entity_id

text \<open>
  \<^verbatim>\<open>providesTags: (result, _error, _arg) => [...]\<close> of the two queries. \<open>None\<close> is a
  \<^verbatim>\<open>result\<close> that is \<^verbatim>\<open>undefined\<close> (the query failed): \<^verbatim>\<open>result.ids\<close> throws there.
\<close>

definition getPosts_providesTags :: "entity_state option \<Rightarrow> error + tag list" where
  "getPosts_providesTags result =
     (case result of
        None \<Rightarrow> Inl TypeError
      | Some r \<Rightarrow>
          Inr (\<lparr>tag_type = ''Post'', tag_id = IdStr ''LIST''\<rparr>
               # map (\<lambda>i. \<lparr>tag_type = ''Post'', tag_id = i\<rparr>) (ids r)))"

definition getPostsByUserId_providesTags :: "entity_state option \<Rightarrow> error + tag list" where
  "getPostsByUserId_providesTags result =
     (case result of
        None \<Rightarrow> Inl TypeError
      | Some r \<Rightarrow> Inr (map (\<lambda>i. \<lparr>tag_type = ''Post'', tag_id = i\<rparr>) (ids r)))"

text \<open>
  \<^verbatim>\<open>invalidatesTags\<close> of the mutations: a constant list for \<^verbatim>\<open>addNewPost\<close>, and
  \<^verbatim>\<open>(_result, _error, arg) => [{ type: 'Post', id: arg.id }]\<close> for \<^verbatim>\<open>updatePost\<close> and
  \<^verbatim>\<open>deletePost\<close>. The argument of \<^verbatim>\<open>updatePost\<close> is a post, that of \<^verbatim>\<open>deletePost\<close> an
  object with an \<^verbatim>\<open>id\<close>. \<^verbatim>\<open>addReaction\<close> declares none.
\<close>

record id_arg =
  arg_id :: entity_id

definition addNewPost_invalidatesTags :: "tag list" where
  "addNewPost_invalidatesTags = [\<lparr>tag_type = ''Post'', tag_id = IdStr ''LIST''\<rparr>]"

definition updatePost_invalidatesTags :: "post \<Rightarrow> tag list" where
  "updatePost_invalidatesTags arg = [\<lparr>tag_type = ''Post'', tag_id = post_id arg\<rparr>]"

definition deletePost_invalidatesTags :: "id_arg \<Rightarrow> tag list" where
  "deletePost_invalidatesTags arg = [\<lparr>tag_type = ''Post'', tag_id = arg_id arg\<rparr>]"

section \<open>The request of addNewPost\<close>

record request =
  url :: string
  http_method :: string
  body :: js_object

text \<open>\<^verbatim>\<open>obj.key\<close>: the value of a property, \<^verbatim>\<open>undefined\<close> when the object has none.\<close>

definition get_prop :: "js_object \<Rightarrow> string \<Rightarrow> jsval" where
  "get_prop obj k = (case map_of obj k of None \<Rightarrow> JUndefined | Some v \<Rightarrow> v)"

text \<open>
  \<^verbatim>\<open>query: initialPost => ({ url: '/posts', method: 'POST', body: { ...initialPost,
  userId: Number(initialPost.userId), date: new Date().toISOString(), reactions: {...} } })\<close>.
  The spread copies the properties of the argument in their order; a property written
  after it replaces the value of one the argument has, in its place, or is appended.
  \<open>toNumber\<close> is the built-in \<^verbatim>\<open>Number\<close>, \<open>toISOString\<close> the built-in formatter and \<open>now\<close>
  what the clock reads.
\<close>

definition addNewPost_query ::
  "(jsval \<Rightarrow> jsval) \<Rightarrow> (int \<Rightarrow> string) \<Rightarrow> int \<Rightarrow> js_object \<Rightarrow> request" where
  "addNewPost_query toNumber toISOString now initialPost =
     \<lparr>url = ''/posts'',
      http_method = ''POST'',
      body =
        AList.update ''reactions''
          (JObj [(''thumbsUp'', JNum 0), (''wow'', JNum 0), (''heart'', JNum 0),
                 (''rocket'', JNum 0), (''coffee'', JNum 0)])
          (AList.update ''date'' (JStr (toISOString now))
             (AList.update ''userId'' (toNumber (get_prop initialPost ''userId'')) initialPost))\<rparr>"

section \<open>The query cache\<close>

text \<open>
  Modelled from the spec: the query cache, the tag index and the mutation executor of
  RTK Query (\<^verbatim>\<open>apiSlice\<close> and the library behind it), which are not under \<^verbatim>\<open>src/\<close>. The
  spec (Data model): an entry is keyed by the endpoint's name and its serialized
  argument and has a status, the data, an error, the tags attached at success time and
  the number of subscribers; the tag index maps a tag to the keys of the entries that
  provide it.
\<close>

datatype status = Uninitialized | Loading | Success | Error

datatype query_arg = ArgUndefined | ArgId entity_id

type_synonym query_key = "string \<times> query_arg"

record cache_entry =
  status :: status
  data :: "entity_state option"
  error_info :: "string option"
  tags :: "tag list"
  subscriberCount :: nat

record api_state =
  queries :: "query_key \<Rightarrow> cache_entry option"
  tagIndex :: "tag \<Rightarrow> query_key set"

text \<open>
  Modelled from the spec (Tag Index): \<open>reconcile\<close> removes the key from the tags it no
  longer provides and adds it to the new ones; \<open>resolve\<close> is the union of the keys
  registered under any of the tags.
\<close>

definition reconcile ::
  "query_key \<Rightarrow> tag list \<Rightarrow> tag list \<Rightarrow> (tag \<Rightarrow> query_key set) \<Rightarrow> tag \<Rightarrow> query_key set" where
  "reconcile key oldTags newTags idx =
     (\<lambda>t. if t \<in> set oldTags \<and> t \<notin> set newTags then idx t - {key}
          else if t \<in> set newTags \<and> t \<notin> set oldTags then insert key (idx t)
          else idx t)"

definition resolve :: "tag list \<Rightarrow> (tag \<Rightarrow> query_key set) \<Rightarrow> query_key set" where
  "resolve ts idx = \<Union> (idx ` set ts)"

text \<open>
  Modelled from the spec (Query Cache, on transport success): the entry becomes
  successful with the shaped result as its data and the tags its endpoint provides for
  the result, and the tag index is reconciled.
\<close>

definition queryFulfilled :: "query_key \<Rightarrow> entity_state \<Rightarrow> tag list \<Rightarrow> api_state \<Rightarrow> api_state" where
  "queryFulfilled key result newTags s =
     (let (oldTags, n) =
            (case queries s key of
               None \<Rightarrow> ([], 0)
             | Some e \<Rightarrow> (tags e, subscriberCount e))
      in s\<lparr>queries := (queries s)(key \<mapsto>
              \<lparr>status = Success, data = Some result, error_info = None, tags = newTags,
               subscriberCount = n\<rparr>),
            tagIndex := reconcile key oldTags newTags (tagIndex s)\<rparr>)"

text \<open>
  Modelled from the spec (Mutation Executor, after a successful mutation): every entry
  that \<open>resolve\<close> returns for the invalidation tags is stale; with a subscriber it is
  fetched again at once (it is loading), with none it is dropped from the cache.
\<close>

definition invalidate :: "tag list \<Rightarrow> api_state \<Rightarrow> api_state" where
  "invalidate ts s =
     s\<lparr>queries :=
         (\<lambda>k. if k \<in> resolve ts (tagIndex s)
              then (case queries s k of
                      None \<Rightarrow> None
                    | Some e \<Rightarrow> if 0 < subscriberCount e then Some (e\<lparr>status := Loading\<rparr>) else None)
              else queries s k)\<rparr>"

text \<open>
  Modelled from the spec (Query Cache, \<^verbatim>\<open>startQuery\<close>): a query of a key that has an
  entry joins it (one more subscriber) and issues no transport call; a query of a key
  that has none creates a loading entry and issues one. The result says whether a
  transport call is issued. An entry that was invalidated is loading or gone, so none
  is stale when a query starts.
\<close>

definition startQuery :: "query_key \<Rightarrow> api_state \<Rightarrow> api_state \<times> bool" where
  "startQuery key s =
     (case queries s key of
        Some e \<Rightarrow>
          (s\<lparr>queries := (queries s)(key \<mapsto> e\<lparr>subscriberCount := Suc (subscriberCount e)\<rparr>)\<rparr>, False)
      | None \<Rightarrow>
          (s\<lparr>queries := (queries s)(key \<mapsto>
               \<lparr>status = Loading, data = None, error_info = None, tags = [],
                subscriberCount = 1\<rparr>)\<rparr>, True))"

text \<open>
  Modelled from the spec (Optimistic Patch Manager): \<^verbatim>\<open>updateQueryData\<close> replaces the
  data of the target entry by the recipe's result and retains the original, when the
  entry has data; \<^verbatim>\<open>undo\<close> puts the retained original back.
\<close>

type_synonym patch = "(query_key \<times> entity_state) option"

definition updateQueryData ::
  "query_key \<Rightarrow> (entity_state \<Rightarrow> entity_state) \<Rightarrow> api_state \<Rightarrow> api_state \<times> patch" where
  "updateQueryData key recipe s =
     (case queries s key of
        None \<Rightarrow> (s, None)
      | Some e \<Rightarrow>
          (case data e of
             None \<Rightarrow> (s, None)
           | Some d \<Rightarrow>
               (s\<lparr>queries := (queries s)(key \<mapsto> e\<lparr>data := Some (recipe d)\<rparr>)\<rparr>, Some (key, d))))"

definition undo :: "patch \<Rightarrow> api_state \<Rightarrow> api_state" where
  "undo pr s =
     (case pr of
        None \<Rightarrow> s
      | Some (key, original) \<Rightarrow>
          (case queries s key of
             None \<Rightarrow> s
           | Some e \<Rightarrow> s\<lparr>queries := (queries s)(key \<mapsto> e\<lparr>data := Some original\<rparr>)\<rparr>))"

section \<open>The optimistic update of addReaction\<close>

text \<open>
  The recipe passed to \<^verbatim>\<open>updateQueryData\<close>:
  \<^verbatim>\<open>draft => { const post = draft.entities[postId]; if (post) post.reactions = reactions }\<close>.
  The draft is the recipe's own copy of the data, so the recipe is a function from the
  data to the new data; \<^verbatim>\<open>draft.entities[postId]\<close> looks up the property key of \<^verbatim>\<open>postId\<close>;
  an entity, being an object, is truthy whenever it is there.
\<close>

definition addReaction_recipe ::
  "(int \<Rightarrow> string) \<Rightarrow> entity_id \<Rightarrow> reaction_counts \<Rightarrow> entity_state \<Rightarrow> entity_state" where
  "addReaction_recipe numberToString postId newReactions draft =
     (case map_of (entities draft) (propertyKey numberToString postId) of
        None \<Rightarrow> draft
      | Some p \<Rightarrow>
          draft\<lparr>entities :=
            AList.update (propertyKey numberToString postId) (p\<lparr>reactions := Some newReactions\<rparr>)
              (entities draft)\<rparr>)"

text \<open>
  \<^verbatim>\<open>onQueryStarted({ postId, reactions }, { dispatch, queryFulfilled })\<close> in two steps:
  what it does before \<^verbatim>\<open>await queryFulfilled\<close> (the patch of the \<^verbatim>\<open>getPosts\<close> entry with
  argument \<^verbatim>\<open>undefined\<close>), and what it does once the transport call has settled (nothing
  when it succeeded, \<^verbatim>\<open>patchResult.undo()\<close> in the \<^verbatim>\<open>catch\<close>).
\<close>

datatype outcome = Fulfilled | Rejected

definition addReaction_onQueryStarted ::
  "(int \<Rightarrow> string) \<Rightarrow> entity_id \<Rightarrow> reaction_counts \<Rightarrow> api_state \<Rightarrow> api_state \<times> patch" where
  "addReaction_onQueryStarted numberToString postId newReactions s =
     updateQueryData (''getPosts'', ArgUndefined)
       (addReaction_recipe numberToString postId newReactions) s"

definition addReaction_settled :: "outcome \<Rightarrow> patch \<Rightarrow> api_state \<Rightarrow> api_state" where
  "addReaction_settled out patchResult s =
     (case out of Fulfilled \<Rightarrow> s | Rejected \<Rightarrow> undo patchResult s)"

section \<open>Mutations\<close>

text \<open>
  The four mutation endpoints with their arguments, the invalidation tags each
  declares (\<^verbatim>\<open>addReaction\<close> declares none), and the two steps of the \<^verbatim>\<open>onQueryStarted\<close> each
  has (\<^verbatim>\<open>addReaction\<close> alone has one).
\<close>

datatype mutation =
  AddNewPost js_object
| UpdatePost post
| DeletePost id_arg
| AddReaction entity_id reaction_counts

fun invalidatesTags :: "mutation \<Rightarrow> tag list" where
  "invalidatesTags (AddNewPost initialPost) = addNewPost_invalidatesTags"
| "invalidatesTags (UpdatePost initialPost) = updatePost_invalidatesTags initialPost"
| "invalidatesTags (DeletePost arg) = deletePost_invalidatesTags arg"
| "invalidatesTags (AddReaction postId newReactions) = []"

fun onQueryStarted :: "(int \<Rightarrow> string) \<Rightarrow> mutation \<Rightarrow> api_state \<Rightarrow> api_state \<times> patch" where
  "onQueryStarted numberToString (AddReaction postId newReactions) s =
     addReaction_onQueryStarted numberToString postId newReactions s"
| "onQueryStarted numberToString m s = (s, None)"

fun onSettled :: "mutation \<Rightarrow> outcome \<Rightarrow> patch \<Rightarrow> api_state \<Rightarrow> api_state" where
  "onSettled (AddReaction postId newReactions) out patchResult s =
     addReaction_settled out patchResult s"
| "onSettled m out patchResult s = s"

text \<open>
  Modelled from the spec: the run of one mutation by the executor of RTK Query, which
  is not under \<^verbatim>\<open>src/\<close>, the transport call settling with the given outcome. The spec
  (Mutation Executor, Optimistic Patch Manager): the optimistic update is applied before
  the transport call settles; on success the declared tags are invalidated; on failure
  nothing is invalidated.
\<close>

definition mutate :: "(int \<Rightarrow> string) \<Rightarrow> mutation \<Rightarrow> outcome \<Rightarrow> api_state \<Rightarrow> api_state" where
  "mutate numberToString m out s =
     (case onQueryStarted numberToString m s of
        (s1, patchResult) \<Rightarrow>
          (case out of
             Fulfilled \<Rightarrow> onSettled m Fulfilled patchResult (invalidate (invalidatesTags m) s1)
           | Rejected \<Rightarrow> onSettled m Rejected patchResult s1))"

section \<open>Selectors\<close>

text \<open>
  Modelled from the spec: \<^verbatim>\<open>endpoints.getPosts.select()\<close> of RTK Query and
  \<^verbatim>\<open>getSelectors\<close> of the entity adapter, which are not under \<^verbatim>\<open>src/\<close>. \<open>select\<close> returns the
  entry of the key, an uninitialized one when the cache has none; the adapter's
  selectors read \<^verbatim>\<open>ids\<close>, the entities in the order of \<^verbatim>\<open>ids\<close> (\<^verbatim>\<open>entities[id]\<close> for each),
  and one entity by id.
\<close>

definition select :: "query_key \<Rightarrow> api_state \<Rightarrow> cache_entry" where
  "select key s =
     (case queries s key of
        None \<Rightarrow> \<lparr>status = Uninitialized, data = None, error_info = None, tags = [],
                 subscriberCount = 0\<rparr>
      | Some e \<Rightarrow> e)"

definition selectIds :: "entity_state \<Rightarrow> entity_id list" where
  "selectIds st = ids st"

definition selectAll :: "(int \<Rightarrow> string) \<Rightarrow> entity_state \<Rightarrow> post option list" where
  "selectAll numberToString st =
     map (\<lambda>i. map_of (entities st) (propertyKey numberToString i)) (ids st)"

definition selectById :: "(int \<Rightarrow> string) \<Rightarrow> entity_state \<Rightarrow> entity_id \<Rightarrow> post option" where
  "selectById numberToString st i = map_of (entities st) (propertyKey numberToString i)"

text \<open>
  \<^verbatim>\<open>selectPostsResult\<close>, \<^verbatim>\<open>selectPostsData\<close> (the logging of the result has no effect on
  what it returns) and the three selectors that \<^verbatim>\<open>getSelectors\<close> is asked for with
  \<^verbatim>\<open>state => selectPostsData(state) ?? initialState\<close>.
\<close>

definition selectPostsResult :: "api_state \<Rightarrow> cache_entry" where
  "selectPostsResult = select (''getPosts'', ArgUndefined)"

definition selectPostsData :: "api_state \<Rightarrow> entity_state option" where
  "selectPostsData s = data (selectPostsResult s)"

definition selectState :: "api_state \<Rightarrow> entity_state" where
  "selectState s = (case selectPostsData s of None \<Rightarrow> initialState | Some d \<Rightarrow> d)"

definition selectAllPosts :: "(int \<Rightarrow> string) \<Rightarrow> api_state \<Rightarrow> post option list" where
  "selectAllPosts numberToString s = selectAll numberToString (selectState s)"

definition selectPostById :: "(int \<Rightarrow> string) \<Rightarrow> api_state \<Rightarrow> entity_id \<Rightarrow> post option" where
  "selectPostById numberToString s i = selectById numberToString (selectState s) i"

definition selectPostIds :: "api_state \<Rightarrow> entity_id list" where
  "selectPostIds s = selectIds (selectState s)"

section \<open>Vocabulary of the properties\<close>

text \<open>
  The number of posts before position \<open>i\<close> of the response whose date is absent or
  empty, and the instant (milliseconds since the epoch) that the shaping step
  formats for the post at position \<open>i\<close> when that post has no date: the counter is then
  one more than the number of such posts before it.
\<close>

definition undated_before :: "post list \<Rightarrow> nat \<Rightarrow> nat" where
  "undated_before raw i = length (filter (\<lambda>p. falsy (date p)) (take i raw))"

definition synthesized :: "(nat \<Rightarrow> int) \<Rightarrow> post list \<Rightarrow> nat \<Rightarrow> int" where
  "synthesized newDate raw i =
     (let k = Suc (undated_before raw i) in sub_minutes (newDate k) k)"

text \<open>
  What the properties of the sort need of the built-in comparison of strings, and what
  the comparison by any collation gives: of two strings one is not after the other, and
  a string not after a second that is not after a third is not after the third.
\<close>

definition collates :: "(string \<Rightarrow> string \<Rightarrow> int) \<Rightarrow> bool" where
  "collates cmp =
     ((\<forall>s t. cmp s t \<le> 0 \<or> cmp t s \<le> 0) \<and>
      (\<forall>s t u. cmp s t \<le> 0 \<and> cmp t u \<le> 0 \<longrightarrow> cmp s u \<le> 0))"

text \<open>
  \<open>dated p\<close>: the date of \<open>p\<close> is a string. \<open>not_older cmp a b\<close>: the date of \<open>b\<close> is not
  after the date of \<open>a\<close> in the comparison \<open>cmp\<close>, which is when the comparator of the
  adapter leaves \<open>a\<close> before \<open>b\<close>. \<open>date_at numberToString st i\<close>: the date of
  \<^verbatim>\<open>entities[i]\<close>, when there is such an entity and its date is a string.
  \<open>newest_first\<close>: of any two ids of \<^verbatim>\<open>ids\<close> both name entities with a date, and the date
  of the one that comes later is not after the date of the one that comes first.
\<close>

definition dated :: "post \<Rightarrow> bool" where
  "dated p = (case date p of DateString d \<Rightarrow> True | DateUndefined \<Rightarrow> False | DateNull \<Rightarrow> False)"

definition not_older :: "(string \<Rightarrow> string \<Rightarrow> int) \<Rightarrow> post \<Rightarrow> post \<Rightarrow> bool" where
  "not_older cmp a b = (cmp (dateText b) (dateText a) \<le> 0)"

definition date_at :: "(int \<Rightarrow> string) \<Rightarrow> entity_state \<Rightarrow> entity_id \<Rightarrow> string option" where
  "date_at numberToString st i =
     (case map_of (entities st) (propertyKey numberToString i) of
        None \<Rightarrow> None
      | Some p \<Rightarrow>
          (case date p of
             DateString d \<Rightarrow> Some d
           | DateUndefined \<Rightarrow> None
           | DateNull \<Rightarrow> None))"

definition newest_first :: "(string \<Rightarrow> string \<Rightarrow> int) \<Rightarrow> (int \<Rightarrow> string) \<Rightarrow> entity_state \<Rightarrow> bool" where
  "newest_first cmp numberToString st =
     sorted_wrt (\<lambda>i j. case (date_at numberToString st i, date_at numberToString st j) of
                         (Some a, Some b) \<Rightarrow> cmp b a \<le> 0
                       | _ \<Rightarrow> False) (ids st)"

text \<open>
  The empty cache, and the invariant of the tag index the spec describes: every entry is
  registered under each of its tags.
\<close>

definition emptyCache :: api_state where
  "emptyCache = \<lparr>queries = (\<lambda>k. None), tagIndex = (\<lambda>t. {})\<rparr>"

definition indexed :: "api_state \<Rightarrow> bool" where
  "indexed s = (\<forall>k e. queries s k = Some e \<longrightarrow> (\<forall>t\<in>set (tags e). k \<in> tagIndex s t))"

section \<open>Sample inputs\<close>

text \<open>
  The conversion of a number to a string and the formatter of dates on the values of
  the examples (elsewhere their values are not used), a
  clock that reads the same instant at every call, a clock that reads one minute more
  at each call, and three posts: one without date and reactions, one with both, one
  with an empty date.
\<close>

definition sample_numberToString :: "int \<Rightarrow> string" where
  "sample_numberToString n =
     (if n = 1 then ''1''
      else if n = 3 then ''3''
      else if n = 4 then ''4''
      else if n = 5 then ''5''
      else if n = 9 then ''9''
      else ''0'')"

text \<open>
  The comparison of two strings by the codes of their characters. The dates of the
  examples are of the one format \<^verbatim>\<open>toISOString\<close> writes and differ in digits only, where
  a collation orders them the same way.
\<close>

definition sample_localeCompare :: "string \<Rightarrow> string \<Rightarrow> int" where
  "sample_localeCompare s t = (if s < t then - 1 else if t < s then 1 else 0)"

definition sample_toISOString :: "int \<Rightarrow> string" where
  "sample_toISOString t =
     (if t = 1667466000000 then ''2022-11-03T09:00:00.000Z''
      else if t = 1667465940000 then ''2022-11-03T08:59:00.000Z''
      else if t = 1667465880000 then ''2022-11-03T08:58:00.000Z''
      else ''1970-01-01T00:00:00.000Z'')"

definition frozen_clock :: "nat \<Rightarrow> int" where
  "frozen_clock k = 1667466000000"

definition late_clock :: "nat \<Rightarrow> int" where
  "late_clock k = 1667466000000 + 60000 * int k"

definition post_a :: post where
  "post_a = \<lparr>post_id = IdNum 1, date = DateUndefined, reactions = None, props = [(''title'', JStr ''a'')]\<rparr>"

definition post_b :: post where
  "post_b = \<lparr>post_id = IdNum 5, date = DateString ''2022-11-03T09:30:00.000Z'',
     reactions = Some \<lparr>thumbsUp = 2, wow = 0, heart = 1, rocket = 0, coffee = 0\<rparr>,
     props = [(''title'', JStr ''b'')]\<rparr>"

definition post_c :: post where
  "post_c = \<lparr>post_id = IdNum 3, date = DateString [], reactions = None, props = [(''title'', JStr ''c'')]\<rparr>"

text \<open>A fourth post with the date of the second.\<close>

definition post_d :: post where
  "post_d = \<lparr>post_id = IdNum 4, date = DateString ''2022-11-03T09:30:00.000Z'',
     reactions = Some zeroReactions, props = [(''title'', JStr ''d'')]\<rparr>"

text \<open>
  The first and the third post as the shaping step leaves them under the clock that
  stands still, the snapshot of the response that holds the first, the third and the
  second post, and the snapshot of a query by user that returned the first post alone.
\<close>

definition post_a' :: post where
  "post_a' = post_a\<lparr>date := DateString ''2022-11-03T08:59:00.000Z'', reactions := Some zeroReactions\<rparr>"

definition post_c' :: post where
  "post_c' = post_c\<lparr>date := DateString ''2022-11-03T08:58:00.000Z'', reactions := Some zeroReactions\<rparr>"

definition sample_state :: entity_state where
  "sample_state =
     \<lparr>ids = [IdNum 5, IdNum 1, IdNum 3],
      entities = [(''1'', post_a'), (''3'', post_c'), (''5'', post_b)]\<rparr>"

definition user_state :: entity_state where
  "user_state = \<lparr>ids = [IdNum 1], entities = [(''1'', post_a')]\<rparr>"

text \<open>
  A cache with two successful entries: \<^verbatim>\<open>getPosts\<close> with one subscriber and
  \<^verbatim>\<open>getPostsByUserId(7)\<close> with none, each registered under its tags. A cache in which
  \<^verbatim>\<open>getPosts\<close> is still loading. The cache after a first successful \<^verbatim>\<open>getPosts\<close> whose
  subscriber has left. The reactions a user sends.
\<close>

definition post_tag :: "entity_id \<Rightarrow> tag" where
  "post_tag i = \<lparr>tag_type = ''Post'', tag_id = i\<rparr>"

definition getPosts_entry :: cache_entry where
  "getPosts_entry =
     \<lparr>status = Success, data = Some sample_state, error_info = None,
      tags = [post_tag (IdStr ''LIST''), post_tag (IdNum 5), post_tag (IdNum 1), post_tag (IdNum 3)],
      subscriberCount = 1\<rparr>"

definition byUser_entry :: cache_entry where
  "byUser_entry =
     \<lparr>status = Success, data = Some user_state, error_info = None,
      tags = [post_tag (IdNum 1)], subscriberCount = 0\<rparr>"

definition sample_cache :: api_state where
  "sample_cache =
     \<lparr>queries = [(''getPosts'', ArgUndefined) \<mapsto> getPosts_entry,
                 (''getPostsByUserId'', ArgId (IdNum 7)) \<mapsto> byUser_entry],
      tagIndex = (\<lambda>t. (if t \<in> set (tags getPosts_entry) then {(''getPosts'', ArgUndefined)} else {})
                    \<union> (if t \<in> set (tags byUser_entry)
                       then {(''getPostsByUserId'', ArgId (IdNum 7))} else {}))\<rparr>"

definition loading_cache :: api_state where
  "loading_cache =
     \<lparr>queries = [(''getPosts'', ArgUndefined) \<mapsto>
                  \<lparr>status = Loading, data = None, error_info = None, tags = [],
                   subscriberCount = 1\<rparr>],
      tagIndex = (\<lambda>t. {})\<rparr>"

definition unwatched_cache :: api_state where
  "unwatched_cache =
     queryFulfilled (''getPosts'', ArgUndefined) sample_state (tags getPosts_entry) emptyCache"

definition sample_reactions :: reaction_counts where
  "sample_reactions = \<lparr>thumbsUp = 1, wow = 0, heart = 0, rocket = 0, coffee = 0\<rparr>"

text \<open>
  The coercion on the value of the example (elsewhere its value is not used), and an
  argument of \<^verbatim>\<open>addNewPost\<close> as the form sends it.
\<close>

definition sample_Number :: "jsval \<Rightarrow> jsval" where
  "sample_Number v = (if v = JStr ''3'' then JNum 3 else JUndefined)"

definition sample_initialPost :: js_object where
  "sample_initialPost = [(''title'', JStr ''t''), (''body'', JStr ''b''), (''userId'', JStr ''3'')]"

section \<open>The shaping step fills in the defaults\<close>

lemma backfill_fst:
  "fst (backfill fmt clk m p) =
     p\<lparr>date := (if falsy (date p) then DateString (fmt (sub_minutes (clk m) m)) else date p),
       reactions := (if reactions p = None then Some zeroReactions else reactions p)\<rparr>"
  by (simp add: backfill_def)

lemma backfill_snd: "snd (backfill fmt clk m p) = (if falsy (date p) then Suc m else m)"
  by (simp add: backfill_def)

lemma loadedPosts_Some:
  "loadedPosts fmt clk m (Some p # rest) =
     (case loadedPosts fmt clk (snd (backfill fmt clk m p)) rest of
        Inl e \<Rightarrow> Inl e
      | Inr ps \<Rightarrow> Inr (fst (backfill fmt clk m p) # ps))"
  by (simp add: case_prod_unfold)

lemma loadedPosts_null: "None \<in> set rd \<Longrightarrow> loadedPosts fmt clk m rd = Inl TypeError"
proof (induction rd arbitrary: m)
  case Nil
  then show ?case by simp
next
  case (Cons r rd)
  show ?case
  proof (cases r)
    case None
    then show ?thesis by simp
  next
    case (Some p)
    with Cons.prems have "None \<in> set rd" by simp
    from Cons.IH [OF this] Some show ?thesis
      by (simp add: loadedPosts_Some del: loadedPosts.simps)
  qed
qed

lemma loadedPosts_Inr_objects:
  "loadedPosts fmt clk m rd = Inr ps \<Longrightarrow> \<exists>raw. rd = map Some raw"
proof (induction rd arbitrary: m ps)
  case Nil
  then show ?case by simp
next
  case (Cons r rd)
  show ?case
  proof (cases r)
    case None
    with Cons.prems show ?thesis by simp
  next
    case (Some p)
    with Cons.prems obtain qs where "loadedPosts fmt clk (snd (backfill fmt clk m p)) rd = Inr qs"
      by (auto simp: loadedPosts_Some simp del: loadedPosts.simps split: sum.splits)
    from Cons.IH [OF this] obtain raw where "rd = map Some raw" ..
    with Some have "r # rd = map Some (p # raw)" by simp
    then show ?thesis ..
  qed
qed

lemma undated_before_0: "undated_before raw 0 = 0"
  by (simp add: undated_before_def)

lemma undated_before_Cons_Suc:
  "undated_before (p # raw) (Suc i) = (if falsy (date p) then 1 else 0) + undated_before raw i"
  by (simp add: undated_before_def)

lemma loadedPosts_objects:
  "\<exists>ps. loadedPosts fmt clk m (map Some raw) = Inr ps \<and> length ps = length raw \<and>
     (\<forall>i<length raw. ps ! i = fst (backfill fmt clk (m + undated_before raw i) (raw ! i)))"
proof (induction raw arbitrary: m)
  case Nil
  then show ?case by simp
next
  case (Cons p raw)
  let ?m' = "snd (backfill fmt clk m p)"
  from Cons.IH [of ?m'] obtain qs where
    qs: "loadedPosts fmt clk ?m' (map Some raw) = Inr qs" "length qs = length raw"
      "\<forall>i<length raw. qs ! i = fst (backfill fmt clk (?m' + undated_before raw i) (raw ! i))"
    by blast
  let ?ps = "fst (backfill fmt clk m p) # qs"
  have 1: "loadedPosts fmt clk m (map Some (p # raw)) = Inr ?ps"
    using qs(1) by (simp add: loadedPosts_Some del: loadedPosts.simps)
  have 2: "length ?ps = length (p # raw)"
    using qs(2) by simp
  have 3: "?ps ! i = fst (backfill fmt clk (m + undated_before (p # raw) i) ((p # raw) ! i))"
    if "i < length (p # raw)" for i
  proof (cases i)
    case 0
    then show ?thesis by (simp add: undated_before_0)
  next
    case (Suc j)
    with that have "j < length raw" by simp
    with qs(3) have "qs ! j = fst (backfill fmt clk (?m' + undated_before raw j) (raw ! j))"
      by blast
    moreover have "?m' + undated_before raw j = m + undated_before (p # raw) (Suc j)"
      by (simp add: backfill_snd undated_before_Cons_Suc)
    ultimately show ?thesis using Suc by simp
  qed
  from 1 2 3 show ?case by blast
qed

lemma undated_before_mono: "i \<le> j \<Longrightarrow> undated_before raw i \<le> undated_before raw j"
proof -
  assume "i \<le> j"
  then have "take j raw = take i raw @ take (j - i) (drop i raw)"
    by (metis le_add_diff_inverse take_add)
  then show ?thesis by (simp add: undated_before_def)
qed

lemma undated_before_Suc:
  "i < length raw \<Longrightarrow>
   undated_before raw (Suc i) = undated_before raw i + (if falsy (date (raw ! i)) then 1 else 0)"
  by (simp add: undated_before_def take_Suc_conv_app_nth)

lemma undated_before_less:
  assumes "i < j" "j < length raw" "falsy (date (raw ! i))"
  shows "undated_before raw i < undated_before raw j"
proof -
  have "undated_before raw (Suc i) = Suc (undated_before raw i)"
    using assms by (simp add: undated_before_Suc)
  moreover have "undated_before raw (Suc i) \<le> undated_before raw j"
    using assms(1) by (simp add: undated_before_mono)
  ultimately show ?thesis by simp
qed

lemma sub_minutes_decreasing:
  assumes "\<forall>k. clk (Suc k) < clk k + 60000" "j < k"
  shows "sub_minutes (clk k) k < sub_minutes (clk j) j"
  using assms(2)
proof (induction k)
  case 0
  then show ?case by simp
next
  case (Suc k)
  have step: "sub_minutes (clk (Suc k)) (Suc k) < sub_minutes (clk k) k"
    using assms(1) [rule_format, of k] by (simp add: sub_minutes_def)
  show ?case
  proof (cases "j = k")
    case True
    with step show ?thesis by simp
  next
    case False
    with Suc.prems have "j < k" by simp
    from Suc.IH [OF this] step show ?thesis by simp
  qed
qed

text \<open>
  Claim C3, as amended. The shaping step of \<^verbatim>\<open>getPosts\<close> and of \<^verbatim>\<open>getPostsByUserId\<close>
  accepts every response whose elements are objects (by \<open>loadedPosts_Inr_objects\<close> it
  accepts no other), and changes nothing of a post but its date and its reactions. A
  post whose date is absent or empty gets the formatted instant \<open>synthesized\<close>, which is
  the reading of the clock at that post minus as many minutes as posts have been dated
  so far; a post with a non-empty date keeps it. A post without reactions gets the five
  counters at zero; a post with reactions keeps them. When two successive readings of
  the clock are less than a minute apart, the instants given to the undated posts are
  strictly decreasing in the order of the response; when the clock reads the same
  instant throughout, each is exactly one minute (60000 ms) before the previous one.
\<close>

theorem backfill_defaults:
  "\<exists>ps. loadedPosts toISOString newDate 1 (map Some raw) = Inr ps \<and>
     getPosts_transformResponse numberToString localeCompare toISOString newDate (map Some raw) =
       postsAdapter_setAll numberToString localeCompare initialState ps \<and>
     getPostsByUserId_transformResponse numberToString localeCompare toISOString newDate (map Some raw) =
       postsAdapter_setAll numberToString localeCompare initialState ps \<and>
     length ps = length raw \<and>
     (\<forall>i<length raw.
        ps ! i = (raw ! i)
          \<lparr>date := (if falsy (date (raw ! i))
                    then DateString (toISOString (synthesized newDate raw i))
                    else date (raw ! i)),
           reactions := (if reactions (raw ! i) = None
                         then Some zeroReactions
                         else reactions (raw ! i))\<rparr>) \<and>
     ((\<forall>k. newDate (Suc k) < newDate k + 60000) \<longrightarrow>
        (\<forall>i j. i < j \<and> j < length raw \<and> falsy (date (raw ! i)) \<and> falsy (date (raw ! j)) \<longrightarrow>
           synthesized newDate raw j < synthesized newDate raw i)) \<and>
     ((\<forall>k. newDate (Suc k) = newDate k) \<longrightarrow>
        (\<forall>i j. i < j \<and> j < length raw \<and> falsy (date (raw ! i)) \<and> falsy (date (raw ! j)) \<and>
               undated_before raw j = Suc (undated_before raw i) \<longrightarrow>
           synthesized newDate raw j = synthesized newDate raw i - 60000))"
proof -
  obtain ps where ps:
    "loadedPosts toISOString newDate 1 (map Some raw) = Inr ps" "length ps = length raw"
    "\<forall>i<length raw. ps ! i = fst (backfill toISOString newDate (1 + undated_before raw i) (raw ! i))"
    using loadedPosts_objects [of toISOString newDate 1 raw] by blast
  have tr: "getPosts_transformResponse numberToString localeCompare toISOString newDate (map Some raw) =
       postsAdapter_setAll numberToString localeCompare initialState ps"
    "getPostsByUserId_transformResponse numberToString localeCompare toISOString newDate (map Some raw) =
       postsAdapter_setAll numberToString localeCompare initialState ps"
    using ps(1) by (simp_all add: getPosts_transformResponse_def getPostsByUserId_transformResponse_def)
  have each: "\<forall>i<length raw.
        ps ! i = (raw ! i)
          \<lparr>date := (if falsy (date (raw ! i))
                    then DateString (toISOString (synthesized newDate raw i))
                    else date (raw ! i)),
           reactions := (if reactions (raw ! i) = None
                         then Some zeroReactions
                         else reactions (raw ! i))\<rparr>"
    using ps(3) by (simp add: backfill_fst synthesized_def)
  have decr: "(\<forall>k. newDate (Suc k) < newDate k + 60000) \<longrightarrow>
        (\<forall>i j. i < j \<and> j < length raw \<and> falsy (date (raw ! i)) \<and> falsy (date (raw ! j)) \<longrightarrow>
           synthesized newDate raw j < synthesized newDate raw i)"
  proof (intro impI allI, elim conjE)
    fix i j
    assume clock: "\<forall>k. newDate (Suc k) < newDate k + 60000"
      and ij: "i < j" "j < length raw" "falsy (date (raw ! i))"
    have "Suc (undated_before raw i) < Suc (undated_before raw j)"
      using undated_before_less [OF ij] by simp
    from sub_minutes_decreasing [OF clock this]
    show "synthesized newDate raw j < synthesized newDate raw i"
      by (simp add: synthesized_def)
  qed
  have step: "(\<forall>k. newDate (Suc k) = newDate k) \<longrightarrow>
        (\<forall>i j. i < j \<and> j < length raw \<and> falsy (date (raw ! i)) \<and> falsy (date (raw ! j)) \<and>
               undated_before raw j = Suc (undated_before raw i) \<longrightarrow>
           synthesized newDate raw j = synthesized newDate raw i - 60000)"
    by (simp add: synthesized_def sub_minutes_def)
  show ?thesis
  proof (rule exI [where x = ps], intro conjI)
    show "loadedPosts toISOString newDate 1 (map Some raw) = Inr ps" by (fact ps(1))
    show "getPosts_transformResponse numberToString localeCompare toISOString newDate (map Some raw) =
       postsAdapter_setAll numberToString localeCompare initialState ps"
      by (fact tr(1))
    show "getPostsByUserId_transformResponse numberToString localeCompare toISOString newDate (map Some raw) =
       postsAdapter_setAll numberToString localeCompare initialState ps"
      by (fact tr(2))
    show "length ps = length raw" by (fact ps(2))
  qed (fact each decr step)+
qed

text \<open>
  Claim C3 as stated fails: the callback reads the clock anew for every post it dates.
  When the second reading is one minute after the first, two undated posts get the same
  date, so the synthesized dates are not strictly decreasing. The second post here has
  a date field, the empty string, and does not keep it.
\<close>

theorem backfill_late_clock:
  "loadedPosts sample_toISOString late_clock 1 [Some post_a, Some post_c] =
     Inr [post_a\<lparr>date := DateString ''2022-11-03T09:00:00.000Z'', reactions := Some zeroReactions\<rparr>,
          post_c\<lparr>date := DateString ''2022-11-03T09:00:00.000Z'', reactions := Some zeroReactions\<rparr>]"
  by (simp add: late_clock_def sample_toISOString_def post_a_def post_c_def
      backfill_def falsy_def sub_minutes_def)

text \<open>
  The theorem of C3 at a response of three posts, under a clock that stands still: the
  first and the third post are dated one and two minutes before the reading, the second
  keeps its date and its reactions.
\<close>

theorem backfill_defaults_witness:
  "(\<forall>k. frozen_clock (Suc k) < frozen_clock k + 60000) \<and>
   (\<forall>k. frozen_clock (Suc k) = frozen_clock k) \<and>
   loadedPosts sample_toISOString frozen_clock 1 [Some post_a, Some post_b, Some post_c] =
     Inr [post_a\<lparr>date := DateString ''2022-11-03T08:59:00.000Z'', reactions := Some zeroReactions\<rparr>,
          post_b,
          post_c\<lparr>date := DateString ''2022-11-03T08:58:00.000Z'', reactions := Some zeroReactions\<rparr>] \<and>
   synthesized frozen_clock [post_a, post_b, post_c] 0 = 1667465940000 \<and>
   synthesized frozen_clock [post_a, post_b, post_c] 2 = 1667465880000"
  using backfill_defaults [of sample_toISOString frozen_clock "[post_a, post_b, post_c]"]
  by (simp add: frozen_clock_def sample_toISOString_def post_a_def post_b_def post_c_def
      backfill_def falsy_def sub_minutes_def synthesized_def undated_before_def)

section \<open>The snapshot of a response\<close>

text \<open>What \<open>collates\<close> says, and that the comparison of the examples is such a one.\<close>

lemma collates_refl: "collates cmp \<Longrightarrow> cmp s s \<le> 0"
  unfolding collates_def by blast

lemma collates_total: "collates cmp \<Longrightarrow> \<not> cmp s t \<le> 0 \<Longrightarrow> cmp t s \<le> 0"
  unfolding collates_def by blast

lemma collates_trans: "collates cmp \<Longrightarrow> cmp s t \<le> 0 \<Longrightarrow> cmp t u \<le> 0 \<Longrightarrow> cmp s u \<le> 0"
  unfolding collates_def by blast

lemma sample_localeCompare_le_0: "sample_localeCompare s t \<le> 0 \<longleftrightarrow> s \<le> t"
  by (auto simp: sample_localeCompare_def)

lemma collates_sample: "collates sample_localeCompare"
  unfolding collates_def sample_localeCompare_le_0 by auto

text \<open>The comparator on dated posts.\<close>

lemma dated_iff: "dated p \<longleftrightarrow> (\<exists>d. date p = DateString d)"
  by (simp add: dated_def split: date_value.splits)

lemma dated_dateText: "dated p \<Longrightarrow> (dateText p = d) = (date p = DateString d)"
  by (auto simp: dated_iff dateText_def)

lemma sortComparer_Inr:
  "sortComparer cmp x y = Inr c \<Longrightarrow> dated y \<and> (c \<le> 0 \<longleftrightarrow> not_older cmp x y)"
  by (auto simp: sortComparer_def not_older_def dateText_def dated_def split: date_value.splits)

lemma sortComparer_dated: "dated y \<Longrightarrow> \<exists>c. sortComparer cmp x y = Inr c"
  by (auto simp: sortComparer_def dated_iff)

lemma not_older_trans:
  "collates cmp \<Longrightarrow> not_older cmp a b \<Longrightarrow> not_older cmp b c \<Longrightarrow> not_older cmp a c"
  unfolding not_older_def by (rule collates_trans)

lemma not_older_total: "collates cmp \<Longrightarrow> \<not> not_older cmp a b \<Longrightarrow> not_older cmp b a"
  unfolding not_older_def by (rule collates_total)

lemma not_older_same: "collates cmp \<Longrightarrow> dateText a = dateText b \<Longrightarrow> not_older cmp a b"
  unfolding not_older_def by (simp add: collates_refl)

text \<open>
  Insertion keeps the elements, never fails on dated posts, keeps a list ordered, and
  puts the new element before the elements of its own date.
\<close>

lemma insert_by_mset: "insert_by cmp x ys = Inr zs \<Longrightarrow> mset zs = add_mset x (mset ys)"
proof (induction ys arbitrary: zs)
  case Nil
  then show ?case by auto
next
  case (Cons y ys)
  then show ?case
    by (auto split: sum.splits if_splits)
qed

lemma insert_by_total:
  "\<forall>y\<in>set ys. dated y \<Longrightarrow> \<exists>zs. insert_by (sortComparer cmp) x ys = Inr zs"
proof (induction ys)
  case Nil
  then show ?case by simp
next
  case (Cons y ys)
  then obtain c zs where
    "sortComparer cmp x y = Inr c" "insert_by (sortComparer cmp) x ys = Inr zs"
    using sortComparer_dated [of y cmp x] by auto
  then show ?case by simp
qed

lemma insert_by_sorted:
  assumes col: "collates cmp"
  shows "insert_by (sortComparer cmp) x ys = Inr zs \<Longrightarrow> sorted_wrt (not_older cmp) ys \<Longrightarrow>
    sorted_wrt (not_older cmp) zs"
proof (induction ys arbitrary: zs)
  case Nil
  then show ?case by auto
next
  case (Cons y ys)
  from Cons.prems(1) obtain c where c: "sortComparer cmp x y = Inr c"
    by (auto split: sum.splits)
  then have cy: "c \<le> 0 \<longleftrightarrow> not_older cmp x y"
    by (simp add: sortComparer_Inr)
  show ?case
  proof (cases "c \<le> 0")
    case True
    with Cons.prems(1) c have zs: "zs = x # y # ys" by simp
    have xy: "not_older cmp x y"
      using True cy by simp
    have "\<forall>w\<in>set ys. not_older cmp x w"
    proof
      fix w
      assume "w \<in> set ys"
      with Cons.prems(2) have "not_older cmp y w" by simp
      with col xy show "not_older cmp x w" by (rule not_older_trans)
    qed
    with Cons.prems(2) xy zs show ?thesis by simp
  next
    case False
    with Cons.prems(1) c obtain zs' where
      zs': "insert_by (sortComparer cmp) x ys = Inr zs'" "zs = y # zs'"
      by (auto split: sum.splits)
    have "sorted_wrt (not_older cmp) zs'"
      using Cons.IH [OF zs'(1)] Cons.prems(2) by simp
    moreover have "set zs' = insert x (set ys)"
      using insert_by_mset [OF zs'(1)] by (metis set_mset_add_mset_insert set_mset_mset)
    moreover have "not_older cmp y x"
      using False cy col by (simp add: not_older_total)
    ultimately show ?thesis
      using Cons.prems(2) zs'(2) by simp
  qed
qed

lemma insert_by_filter:
  assumes col: "collates cmp"
  shows "insert_by (sortComparer cmp) x ys = Inr zs \<Longrightarrow>
   filter (\<lambda>p. dateText p = d) zs =
     (if dateText x = d then x # filter (\<lambda>p. dateText p = d) ys
      else filter (\<lambda>p. dateText p = d) ys)"
proof (induction ys arbitrary: zs)
  case Nil
  then show ?case by auto
next
  case (Cons y ys)
  from Cons.prems obtain c where c: "sortComparer cmp x y = Inr c"
    by (auto split: sum.splits)
  then have cy: "c \<le> 0 \<longleftrightarrow> not_older cmp x y"
    by (simp add: sortComparer_Inr)
  show ?case
  proof (cases "c \<le> 0")
    case True
    with Cons.prems c have "zs = x # y # ys" by simp
    then show ?thesis by simp
  next
    case False
    with Cons.prems c obtain zs' where
      zs': "insert_by (sortComparer cmp) x ys = Inr zs'" "zs = y # zs'"
      by (auto split: sum.splits)
    have "dateText x \<noteq> dateText y"
      using False cy not_older_same [OF col, of x y] by auto
    with Cons.IH [OF zs'(1)] zs'(2) show ?thesis by auto
  qed
qed

text \<open>The same for the sort: it is a stable sort by descending date.\<close>

lemma sort_by_mset: "sort_by cmp xs = Inr ys \<Longrightarrow> mset ys = mset xs"
proof (induction xs arbitrary: ys)
  case Nil
  then show ?case by simp
next
  case (Cons x xs)
  then obtain ys' where "sort_by cmp xs = Inr ys'" "insert_by cmp x ys' = Inr ys"
    by (auto split: sum.splits)
  with Cons.IH show ?case
    by (simp add: insert_by_mset)
qed

lemma sort_by_total:
  "\<forall>x\<in>set xs. dated x \<Longrightarrow> \<exists>ys. sort_by (sortComparer cmp) xs = Inr ys"
proof (induction xs)
  case Nil
  then show ?case by simp
next
  case (Cons x xs)
  then obtain ys' where ys': "sort_by (sortComparer cmp) xs = Inr ys'" by auto
  then have "set ys' = set xs"
    by (metis sort_by_mset set_mset_mset)
  with Cons.prems have "\<forall>y\<in>set ys'. dated y" by simp
  from insert_by_total [OF this, of cmp x] ys' show ?case by simp
qed

lemma sort_by_sorted:
  assumes col: "collates cmp"
  shows "sort_by (sortComparer cmp) xs = Inr ys \<Longrightarrow> sorted_wrt (not_older cmp) ys"
proof (induction xs arbitrary: ys)
  case Nil
  then show ?case by simp
next
  case (Cons x xs)
  then obtain ys' where
    ys': "sort_by (sortComparer cmp) xs = Inr ys'" "insert_by (sortComparer cmp) x ys' = Inr ys"
    by (auto split: sum.splits)
  from insert_by_sorted [OF col ys'(2) Cons.IH [OF ys'(1)]] show ?case .
qed

lemma sort_by_stable:
  assumes col: "collates cmp"
  shows "sort_by (sortComparer cmp) xs = Inr ys \<Longrightarrow>
   filter (\<lambda>p. dateText p = d) ys = filter (\<lambda>p. dateText p = d) xs"
proof (induction xs arbitrary: ys)
  case Nil
  then show ?case by simp
next
  case (Cons x xs)
  then obtain ys' where
    ys': "sort_by (sortComparer cmp) xs = Inr ys'" "insert_by (sortComparer cmp) x ys' = Inr ys"
    by (auto split: sum.splits)
  from insert_by_filter [OF col ys'(2), of d] Cons.IH [OF ys'(1)] show ?case by simp
qed

text \<open>
  The entities stored by \<open>setAll\<close>: one entry for each key, under the key of its post,
  and the records themselves in their order when their keys are distinct.
\<close>

lemma set_update_subset: "set (AList.update k v al) \<subseteq> insert (k, v) (set al)"
  by (induction al) auto

lemma update_fresh: "k \<notin> fst ` set al \<Longrightarrow> AList.update k v al = al @ [(k, v)]"
  by (induction al) auto

lemma stored_keys:
  "fst ` set (foldl (\<lambda>al r. AList.update (propertyKey nts (post_id r)) r al) al rs) =
   fst ` set al \<union> (\<lambda>r. propertyKey nts (post_id r)) ` set rs"
  by (induction rs arbitrary: al) (auto simp: dom_update)

lemma stored_distinct:
  "distinct (map fst al) \<Longrightarrow>
   distinct (map fst (foldl (\<lambda>al r. AList.update (propertyKey nts (post_id r)) r al) al rs))"
  by (induction rs arbitrary: al) (simp_all add: distinct_update)

lemma stored_own:
  "\<forall>e\<in>set al. propertyKey nts (post_id (snd e)) = fst e \<Longrightarrow>
   \<forall>e\<in>set (foldl (\<lambda>al r. AList.update (propertyKey nts (post_id r)) r al) al rs).
      propertyKey nts (post_id (snd e)) = fst e"
proof (induction rs arbitrary: al)
  case Nil
  then show ?case by simp
next
  case (Cons r rs)
  have "\<forall>e\<in>set (AList.update (propertyKey nts (post_id r)) r al).
      propertyKey nts (post_id (snd e)) = fst e"
    using Cons.prems set_update_subset [of "propertyKey nts (post_id r)" r al] by auto
  from Cons.IH [OF this] show ?case by simp
qed

lemma stored_values:
  "snd ` set (foldl (\<lambda>al r. AList.update (propertyKey nts (post_id r)) r al) al rs) \<subseteq>
   snd ` set al \<union> set rs"
proof (induction rs arbitrary: al)
  case Nil
  then show ?case by simp
next
  case (Cons r rs)
  have "snd ` set (AList.update (propertyKey nts (post_id r)) r al) \<subseteq> insert r (snd ` set al)"
    using set_update_subset [of "propertyKey nts (post_id r)" r al] by auto
  with Cons.IH [of "AList.update (propertyKey nts (post_id r)) r al"] show ?case by auto
qed

lemma stored_fresh:
  "distinct (map (\<lambda>r. propertyKey nts (post_id r)) rs) \<Longrightarrow>
   (\<lambda>r. propertyKey nts (post_id r)) ` set rs \<inter> fst ` set al = {} \<Longrightarrow>
   foldl (\<lambda>al r. AList.update (propertyKey nts (post_id r)) r al) al rs =
     al @ map (\<lambda>r. (propertyKey nts (post_id r), r)) rs"
proof (induction rs arbitrary: al)
  case Nil
  then show ?case by simp
next
  case (Cons r rs)
  have fresh: "propertyKey nts (post_id r) \<notin> fst ` set al"
    using Cons.prems(2) by auto
  then have upd: "AList.update (propertyKey nts (post_id r)) r al =
      al @ [(propertyKey nts (post_id r), r)]"
    by (rule update_fresh)
  have "(\<lambda>r. propertyKey nts (post_id r)) ` set rs \<inter>
      fst ` set (al @ [(propertyKey nts (post_id r), r)]) = {}"
    using Cons.prems by auto
  with Cons.IH [of "al @ [(propertyKey nts (post_id r), r)]"] Cons.prems(1) upd show ?case
    by simp
qed

text \<open>
  What \<open>setAll\<close> returns: on dated records it returns a snapshot; the entities of a
  snapshot are the stored records, and its ids those of the sorted entities.
\<close>

lemma setAll_Inr:
  "setAll nts c st rs = Inr snap \<Longrightarrow>
   entities snap = foldl (\<lambda>al r. AList.update (propertyKey nts (post_id r)) r al) [] rs \<and>
   (\<exists>srt. sort_by c (map snd (entities snap)) = Inr srt \<and> ids snap = map post_id srt)"
  by (auto simp: setAll_def Let_def split: sum.splits)

lemma setAll_entities:
  "setAll nts c st rs = Inr snap \<Longrightarrow>
   entities snap = foldl (\<lambda>al r. AList.update (propertyKey nts (post_id r)) r al) [] rs"
  by (simp add: setAll_Inr)

lemma setAll_total:
  assumes "\<forall>r\<in>set rs. dated r"
  shows "\<exists>snap. setAll nts (sortComparer cmp) st rs = Inr snap"
proof -
  let ?es = "foldl (\<lambda>al r. AList.update (propertyKey nts (post_id r)) r al) [] rs"
  have "snd ` set ?es \<subseteq> set rs"
    using stored_values [of nts "[]" rs] by simp
  with assms have "\<forall>p\<in>set (map snd ?es). dated p"
    by auto
  from sort_by_total [OF this] obtain srt where "sort_by (sortComparer cmp) (map snd ?es) = Inr srt"
    by blast
  then show ?thesis
    by (simp add: setAll_def)
qed

lemma snapshot_keys:
  "setAll nts c st rs = Inr snap \<Longrightarrow>
   fst ` set (entities snap) = (\<lambda>r. propertyKey nts (post_id r)) ` set rs"
  by (simp add: setAll_entities stored_keys)

lemma snapshot_keys_distinct:
  "setAll nts c st rs = Inr snap \<Longrightarrow> distinct (map fst (entities snap))"
  by (simp add: setAll_entities stored_distinct)

lemma snapshot_own:
  "setAll nts c st rs = Inr snap \<Longrightarrow>
   \<forall>e\<in>set (entities snap). propertyKey nts (post_id (snd e)) = fst e"
  using stored_own [of "[]" nts rs] by (simp add: setAll_entities)

lemma snapshot_values:
  "setAll nts c st rs = Inr snap \<Longrightarrow> snd ` set (entities snap) \<subseteq> set rs"
  using stored_values [of nts "[]" rs] by (simp add: setAll_entities)

lemma snapshot_ids_mset:
  assumes "setAll nts c st rs = Inr snap"
  shows "mset (ids snap) = mset (map (\<lambda>e. post_id (snd e)) (entities snap))"
proof -
  from setAll_Inr [OF assms] obtain srt where
    srt: "sort_by c (map snd (entities snap)) = Inr srt" "ids snap = map post_id srt"
    by blast
  have "mset srt = mset (map snd (entities snap))"
    using srt(1) by (rule sort_by_mset)
  then have "mset (map post_id srt) = mset (map post_id (map snd (entities snap)))"
    by (metis mset_map)
  with srt(2) show ?thesis by (simp add: o_def)
qed

lemma snapshot_keys_mset:
  assumes "setAll nts c st rs = Inr snap"
  shows "mset (map (propertyKey nts) (ids snap)) = mset (map fst (entities snap))"
proof -
  have "mset (map (propertyKey nts) (ids snap)) =
      mset (map (propertyKey nts) (map (\<lambda>e. post_id (snd e)) (entities snap)))"
    using snapshot_ids_mset [OF assms] by (metis mset_map)
  also have "map (propertyKey nts) (map (\<lambda>e. post_id (snd e)) (entities snap)) =
      map (\<lambda>e. propertyKey nts (post_id (snd e))) (entities snap)"
    by (simp add: o_def)
  also have "\<dots> = map fst (entities snap)"
    by (rule map_cong) (use snapshot_own [OF assms] in auto)
  finally show ?thesis .
qed

lemma snapshot_ids_distinct:
  assumes "setAll nts c st rs = Inr snap"
  shows "distinct (ids snap)"
proof -
  have "distinct (map (propertyKey nts) (ids snap))"
    using snapshot_keys_mset [OF assms] snapshot_keys_distinct [OF assms]
    by (metis mset_eq_imp_distinct_iff)
  then show ?thesis by (simp add: distinct_map)
qed

lemma snapshot_ids_keys:
  assumes "setAll nts c st rs = Inr snap"
  shows "propertyKey nts ` set (ids snap) = fst ` set (entities snap)"
  using snapshot_keys_mset [OF assms] by (metis set_mset_mset set_map)

lemma snapshot_ids_length:
  assumes "setAll nts c st rs = Inr snap"
  shows "length (ids snap) = length (entities snap)"
  using snapshot_ids_mset [OF assms] by (metis size_mset length_map)

lemma snapshot_date_at:
  assumes res: "setAll nts c st rs = Inr snap" and e: "e \<in> set (entities snap)"
  shows "date_at nts snap (post_id (snd e)) =
    (case date (snd e) of DateString d \<Rightarrow> Some d | DateUndefined \<Rightarrow> None | DateNull \<Rightarrow> None)"
proof -
  have "propertyKey nts (post_id (snd e)) = fst e"
    using snapshot_own [OF res] e by blast
  with e have "(propertyKey nts (post_id (snd e)), snd e) \<in> set (entities snap)"
    by simp
  with snapshot_keys_distinct [OF res]
  have "map_of (entities snap) (propertyKey nts (post_id (snd e))) = Some (snd e)"
    by simp
  then show ?thesis by (simp add: date_at_def)
qed

lemma snapshot_dated:
  assumes res: "setAll nts c st rs = Inr snap" and dated: "\<forall>r\<in>set rs. dated r"
  shows "\<forall>i\<in>set (ids snap). date_at nts snap i \<noteq> None"
proof
  fix i
  assume "i \<in> set (ids snap)"
  then have "i \<in> set (map (\<lambda>e. post_id (snd e)) (entities snap))"
    using snapshot_ids_mset [OF res] by (metis set_mset_mset)
  then obtain e where e: "e \<in> set (entities snap)" "i = post_id (snd e)"
    by auto
  with snapshot_values [OF res] dated have "dated (snd e)"
    by auto
  with snapshot_date_at [OF res e(1)] e(2) show "date_at nts snap i \<noteq> None"
    by (auto simp: dated_iff)
qed

lemma snapshot_newest_first:
  assumes col: "collates cmp"
    and res: "setAll nts (sortComparer cmp) st rs = Inr snap"
    and dated: "\<forall>r\<in>set rs. dated r"
  shows "newest_first cmp nts snap"
proof -
  from setAll_Inr [OF res] obtain srt where
    srt: "sort_by (sortComparer cmp) (map snd (entities snap)) = Inr srt" "ids snap = map post_id srt"
    by blast
  have "mset srt = mset (map snd (entities snap))"
    using srt(1) by (rule sort_by_mset)
  then have set_srt: "set srt = snd ` set (entities snap)"
    by (metis set_mset_mset set_map)
  have at: "date_at nts snap (post_id p) = Some (dateText p)" if "p \<in> set srt" for p
  proof -
    from that set_srt obtain e where e: "e \<in> set (entities snap)" "p = snd e" by auto
    with snapshot_values [OF res] dated have "dated p" by auto
    with snapshot_date_at [OF res e(1)] e(2) show ?thesis
      by (auto simp: dated_iff dateText_def)
  qed
  have "sorted_wrt (not_older cmp) srt"
    using col srt(1) by (rule sort_by_sorted)
  then have "sorted_wrt (\<lambda>p q. case (date_at nts snap (post_id p), date_at nts snap (post_id q)) of
                         (Some a, Some b) \<Rightarrow> cmp b a \<le> 0
                       | _ \<Rightarrow> False) srt"
  proof (rule sorted_wrt_mono_rel [rotated])
    fix p q
    assume pq: "p \<in> set srt" "q \<in> set srt" "not_older cmp p q"
    with at [OF pq(1)] at [OF pq(2)]
    show "case (date_at nts snap (post_id p), date_at nts snap (post_id q)) of
            (Some a, Some b) \<Rightarrow> cmp b a \<le> 0
          | _ \<Rightarrow> False"
      by (simp add: not_older_def)
  qed
  then show ?thesis
    by (simp add: newest_first_def srt(2) sorted_wrt_map)
qed

lemma snapshot_stable:
  assumes col: "collates cmp"
    and res: "setAll nts (sortComparer cmp) st rs = Inr snap"
    and dated: "\<forall>r\<in>set rs. dated r"
  shows "filter (\<lambda>i. date_at nts snap i = Some d) (ids snap) =
    map (\<lambda>e. post_id (snd e)) (filter (\<lambda>e. date (snd e) = DateString d) (entities snap))"
proof -
  from setAll_Inr [OF res] obtain srt where
    srt: "sort_by (sortComparer cmp) (map snd (entities snap)) = Inr srt" "ids snap = map post_id srt"
    by blast
  have "mset srt = mset (map snd (entities snap))"
    using srt(1) by (rule sort_by_mset)
  then have set_srt: "set srt = snd ` set (entities snap)"
    by (metis set_mset_mset set_map)
  have es_dated: "dated p" if "p \<in> snd ` set (entities snap)" for p
    using that snapshot_values [OF res] dated by auto
  have at: "(date_at nts snap (post_id p) = Some d) = (dateText p = d)" if "p \<in> set srt" for p
  proof -
    from that set_srt obtain e where e: "e \<in> set (entities snap)" "p = snd e" by auto
    then have "dated p" using es_dated by auto
    with snapshot_date_at [OF res e(1)] e(2) show ?thesis
      by (auto simp: dated_iff dateText_def)
  qed
  have "filter (\<lambda>i. date_at nts snap i = Some d) (ids snap) =
      map post_id (filter (\<lambda>p. date_at nts snap (post_id p) = Some d) srt)"
    by (simp add: srt(2) filter_map o_def)
  also have "filter (\<lambda>p. date_at nts snap (post_id p) = Some d) srt =
      filter (\<lambda>p. dateText p = d) srt"
    by (rule filter_cong) (simp_all add: at)
  also have "\<dots> = filter (\<lambda>p. dateText p = d) (map snd (entities snap))"
    using col srt(1) by (rule sort_by_stable)
  also have "\<dots> = filter (\<lambda>p. date p = DateString d) (map snd (entities snap))"
    by (rule filter_cong) (use es_dated dated_dateText in auto)
  also have "map post_id \<dots> =
      map (\<lambda>e. post_id (snd e)) (filter (\<lambda>e. date (snd e) = DateString d) (entities snap))"
    by (simp add: filter_map o_def)
  finally show ?thesis .
qed

lemma snapshot_fresh:
  assumes "setAll nts c st rs = Inr snap"
    and "distinct (map (\<lambda>r. propertyKey nts (post_id r)) rs)"
  shows "entities snap = map (\<lambda>r. (propertyKey nts (post_id r), r)) rs"
  using stored_fresh [of nts rs "[]"] assms by (simp add: setAll_entities)

lemma snapshot_fresh_ids:
  assumes res: "setAll nts c st rs = Inr snap"
    and dist: "distinct (map (\<lambda>r. propertyKey nts (post_id r)) rs)"
  shows "mset (ids snap) = mset (map post_id rs)"
  using snapshot_ids_mset [OF res] snapshot_fresh [OF res dist] by (simp add: o_def)

text \<open>The shaping step hands dated posts, with the ids of the response, to \<open>setAll\<close>.\<close>

lemma backfill_dated: "dated (fst (backfill fmt clk m p))"
  by (cases "date p") (auto simp: backfill_def falsy_def dated_def)

lemma backfill_post_id: "post_id (fst (backfill fmt clk m p)) = post_id p"
  by (simp add: backfill_def)

lemma loadedPosts_dated:
  "loadedPosts fmt clk m rd = Inr ps \<Longrightarrow> \<forall>p\<in>set ps. dated p"
proof (induction rd arbitrary: m ps)
  case Nil
  then show ?case by simp
next
  case (Cons r rd)
  show ?case
  proof (cases r)
    case None
    with Cons.prems show ?thesis by simp
  next
    case (Some p)
    with Cons.prems obtain qs where
      qs: "loadedPosts fmt clk (snd (backfill fmt clk m p)) rd = Inr qs"
        "ps = fst (backfill fmt clk m p) # qs"
      by (auto simp: loadedPosts_Some simp del: loadedPosts.simps split: sum.splits)
    from Cons.IH [OF qs(1)] qs(2) backfill_dated [of fmt clk m p] show ?thesis
      by auto
  qed
qed

lemma loadedPosts_ids:
  "loadedPosts fmt clk m (map Some raw) = Inr ps \<Longrightarrow> map post_id ps = map post_id raw"
proof (induction raw arbitrary: m ps)
  case Nil
  then show ?case by simp
next
  case (Cons p raw)
  then obtain qs where
    qs: "loadedPosts fmt clk (snd (backfill fmt clk m p)) (map Some raw) = Inr qs"
      "ps = fst (backfill fmt clk m p) # qs"
    by (auto simp: loadedPosts_Some simp del: loadedPosts.simps split: sum.splits)
  from Cons.IH [OF qs(1)] qs(2) show ?case
    by (simp add: backfill_post_id)
qed

lemma loadedPosts_keys:
  assumes "loadedPosts fmt clk m (map Some raw) = Inr ps"
  shows "map (\<lambda>r. propertyKey nts (post_id r)) ps = map (\<lambda>r. propertyKey nts (post_id r)) raw"
proof -
  have "map (propertyKey nts) (map post_id ps) = map (propertyKey nts) (map post_id raw)"
    using loadedPosts_ids [OF assms] by simp
  then show ?thesis by (simp add: o_def)
qed

lemma getPosts_transformResponse_Inr:
  "loadedPosts fmt clk 1 rd = Inr ps \<Longrightarrow>
   getPosts_transformResponse nts cmp fmt clk rd = setAll nts (sortComparer cmp) initialState ps"
  by (simp add: getPosts_transformResponse_def postsAdapter_setAll_def)

lemma getPostsByUserId_transformResponse_Inr:
  "loadedPosts fmt clk 1 rd = Inr ps \<Longrightarrow>
   getPostsByUserId_transformResponse nts cmp fmt clk rd =
     setAll nts (sortComparer cmp) initialState ps"
  by (simp add: getPostsByUserId_transformResponse_def postsAdapter_setAll_def)

text \<open>
  Claim C2. For every response that \<^verbatim>\<open>transformResponse\<close> of \<^verbatim>\<open>getPosts\<close> accepts (a list of
  objects, by \<open>loadedPosts_Inr_objects\<close>), the shaping step returns a snapshot, and in it
  \<^verbatim>\<open>ids\<close> has no duplicates and holds exactly the ids whose property keys are the keys
  of \<^verbatim>\<open>entities\<close> (the keys of the ids of the records), one for each key, all of dated
  entities. When the comparison of strings is that of a collation, \<^verbatim>\<open>ids\<close> is ordered by
  descending date, the dates compared as strings by it, and ids whose entities have
  the same date stand in the order in which their entities were inserted, which is the
  order of the records in the response when their keys are distinct.
\<close>

theorem setAll_normalized:
  "\<exists>ps snap. loadedPosts toISOString newDate 1 (map Some raw) = Inr ps \<and>
     getPosts_transformResponse numberToString localeCompare toISOString newDate (map Some raw) =
       Inr snap \<and>
     distinct (ids snap) \<and>
     distinct (map fst (entities snap)) \<and>
     propertyKey numberToString ` set (ids snap) = fst ` set (entities snap) \<and>
     length (ids snap) = length (entities snap) \<and>
     fst ` set (entities snap) = (\<lambda>p. propertyKey numberToString (post_id p)) ` set raw \<and>
     (\<forall>i\<in>set (ids snap). date_at numberToString snap i \<noteq> None) \<and>
     (collates localeCompare \<longrightarrow>
        newest_first localeCompare numberToString snap \<and>
        (\<forall>d. filter (\<lambda>i. date_at numberToString snap i = Some d) (ids snap) =
             map (\<lambda>e. post_id (snd e))
               (filter (\<lambda>e. date (snd e) = DateString d) (entities snap))) \<and>
        (distinct (map (\<lambda>p. propertyKey numberToString (post_id p)) raw) \<longrightarrow>
           entities snap = map (\<lambda>p. (propertyKey numberToString (post_id p), p)) ps \<and>
           (\<forall>d. filter (\<lambda>i. date_at numberToString snap i = Some d) (ids snap) =
                map post_id (filter (\<lambda>p. date p = DateString d) ps))))"
proof -
  obtain ps where ps: "loadedPosts toISOString newDate 1 (map Some raw) = Inr ps"
    using loadedPosts_objects [of toISOString newDate 1 raw] by blast
  have dated: "\<forall>p\<in>set ps. dated p"
    using ps by (rule loadedPosts_dated)
  have keys_ps: "map (\<lambda>r. propertyKey numberToString (post_id r)) ps =
      map (\<lambda>r. propertyKey numberToString (post_id r)) raw"
    using ps by (rule loadedPosts_keys)
  from setAll_total [OF dated] obtain snap where
    res: "setAll numberToString (sortComparer localeCompare) initialState ps = Inr snap"
    by blast
  have tr: "getPosts_transformResponse numberToString localeCompare toISOString newDate (map Some raw) =
      Inr snap"
    using res by (simp add: getPosts_transformResponse_Inr [OF ps])
  have "fst ` set (entities snap) = set (map (\<lambda>r. propertyKey numberToString (post_id r)) ps)"
    using snapshot_keys [OF res] by simp
  then have keys: "fst ` set (entities snap) =
      (\<lambda>p. propertyKey numberToString (post_id p)) ` set raw"
    unfolding keys_ps by simp
  have ties: "\<forall>d. filter (\<lambda>i. date_at numberToString snap i = Some d) (ids snap) =
      map (\<lambda>e. post_id (snd e)) (filter (\<lambda>e. date (snd e) = DateString d) (entities snap))"
    if col: "collates localeCompare"
    using snapshot_stable [OF col res dated] by blast
  have order: "entities snap = map (\<lambda>p. (propertyKey numberToString (post_id p), p)) ps \<and>
      (\<forall>d. filter (\<lambda>i. date_at numberToString snap i = Some d) (ids snap) =
           map post_id (filter (\<lambda>p. date p = DateString d) ps))"
    if col: "collates localeCompare"
      and dist: "distinct (map (\<lambda>p. propertyKey numberToString (post_id p)) raw)"
  proof -
    from dist have "distinct (map (\<lambda>r. propertyKey numberToString (post_id r)) ps)"
      unfolding keys_ps .
    with res have ents: "entities snap = map (\<lambda>p. (propertyKey numberToString (post_id p), p)) ps"
      by (rule snapshot_fresh)
    have "map (\<lambda>e. post_id (snd e))
        (filter (\<lambda>e. date (snd e) = DateString d)
          (map (\<lambda>p. (propertyKey numberToString (post_id p), p)) ps)) =
        map post_id (filter (\<lambda>p. date p = DateString d) ps)" for d
      by (simp add: filter_map o_def)
    with ties [OF col] ents show ?thesis by simp
  qed
  have last: "collates localeCompare \<longrightarrow>
        newest_first localeCompare numberToString snap \<and>
        (\<forall>d. filter (\<lambda>i. date_at numberToString snap i = Some d) (ids snap) =
             map (\<lambda>e. post_id (snd e))
               (filter (\<lambda>e. date (snd e) = DateString d) (entities snap))) \<and>
        (distinct (map (\<lambda>p. propertyKey numberToString (post_id p)) raw) \<longrightarrow>
           entities snap = map (\<lambda>p. (propertyKey numberToString (post_id p), p)) ps \<and>
           (\<forall>d. filter (\<lambda>i. date_at numberToString snap i = Some d) (ids snap) =
                map post_id (filter (\<lambda>p. date p = DateString d) ps)))"
  proof (intro impI conjI)
    assume col: "collates localeCompare"
    from col res dated show "newest_first localeCompare numberToString snap"
      by (rule snapshot_newest_first)
    from ties [OF col]
    show "\<forall>d. filter (\<lambda>i. date_at numberToString snap i = Some d) (ids snap) =
        map (\<lambda>e. post_id (snd e)) (filter (\<lambda>e. date (snd e) = DateString d) (entities snap))" .
    assume dist: "distinct (map (\<lambda>p. propertyKey numberToString (post_id p)) raw)"
    from order [OF col dist]
    show "entities snap = map (\<lambda>p. (propertyKey numberToString (post_id p), p)) ps"
      and "\<forall>d. filter (\<lambda>i. date_at numberToString snap i = Some d) (ids snap) =
        map post_id (filter (\<lambda>p. date p = DateString d) ps)"
      by blast+
  qed
  show ?thesis
  proof (rule exI [where x = ps], rule exI [where x = snap], intro conjI)
    show "loadedPosts toISOString newDate 1 (map Some raw) = Inr ps" by (fact ps)
    show "getPosts_transformResponse numberToString localeCompare toISOString newDate (map Some raw) =
       Inr snap" by (fact tr)
    show "distinct (ids snap)" using res by (rule snapshot_ids_distinct)
    show "distinct (map fst (entities snap))" using res by (rule snapshot_keys_distinct)
    show "propertyKey numberToString ` set (ids snap) = fst ` set (entities snap)"
      using res by (rule snapshot_ids_keys)
    show "length (ids snap) = length (entities snap)" using res by (rule snapshot_ids_length)
    show "fst ` set (entities snap) = (\<lambda>p. propertyKey numberToString (post_id p)) ` set raw"
      by (fact keys)
    show "\<forall>i\<in>set (ids snap). date_at numberToString snap i \<noteq> None"
      using res dated by (rule snapshot_dated)
  qed (fact last)
qed

text \<open>
  The theorem of C2 at a response of four posts with distinct ids, the third and the
  fourth with the same date: they come first, in the order of the response.
\<close>

lemma sample_shaped:
  "getPosts_transformResponse sample_numberToString sample_localeCompare sample_toISOString
     frozen_clock (map Some [post_a, post_c, post_d, post_b]) =
   Inr \<lparr>ids = [IdNum 4, IdNum 5, IdNum 1, IdNum 3],
        entities = [(''1'', post_a\<lparr>date := DateString ''2022-11-03T08:59:00.000Z'',
                                 reactions := Some zeroReactions\<rparr>),
                    (''3'', post_c\<lparr>date := DateString ''2022-11-03T08:58:00.000Z'',
                                 reactions := Some zeroReactions\<rparr>),
                    (''4'', post_d),
                    (''5'', post_b)]\<rparr>"
  by (simp add: getPosts_transformResponse_def postsAdapter_setAll_def setAll_def
      sortComparer_def sample_localeCompare_def dateText_def propertyKey_def
      sample_numberToString_def
      frozen_clock_def sample_toISOString_def post_a_def post_b_def post_c_def post_d_def
      backfill_def falsy_def sub_minutes_def)

theorem setAll_normalized_witness:
  "collates sample_localeCompare \<and>
   distinct (map (\<lambda>p. propertyKey sample_numberToString (post_id p))
     [post_a, post_c, post_d, post_b]) \<and>
   getPosts_transformResponse sample_numberToString sample_localeCompare sample_toISOString
     frozen_clock (map Some [post_a, post_c, post_d, post_b]) =
   Inr \<lparr>ids = [IdNum 4, IdNum 5, IdNum 1, IdNum 3],
        entities = [(''1'', post_a\<lparr>date := DateString ''2022-11-03T08:59:00.000Z'',
                                 reactions := Some zeroReactions\<rparr>),
                    (''3'', post_c\<lparr>date := DateString ''2022-11-03T08:58:00.000Z'',
                                 reactions := Some zeroReactions\<rparr>),
                    (''4'', post_d),
                    (''5'', post_b)]\<rparr> \<and>
   date post_d = DateString ''2022-11-03T09:30:00.000Z'' \<and>
   date post_b = DateString ''2022-11-03T09:30:00.000Z'' \<and>
   map post_id (filter (\<lambda>p. date p = DateString ''2022-11-03T09:30:00.000Z'')
     [post_a, post_c, post_d, post_b]) = [IdNum 4, IdNum 5]"
proof -
  have 1: "distinct (map (\<lambda>p. propertyKey sample_numberToString (post_id p))
     [post_a, post_c, post_d, post_b])"
    by (simp add: post_a_def post_b_def post_c_def post_d_def propertyKey_def
        sample_numberToString_def)
  have 2: "date post_d = DateString ''2022-11-03T09:30:00.000Z''"
    "date post_b = DateString ''2022-11-03T09:30:00.000Z''"
    by (simp_all add: post_b_def post_d_def)
  have 3: "map post_id (filter (\<lambda>p. date p = DateString ''2022-11-03T09:30:00.000Z'')
     [post_a, post_c, post_d, post_b]) = [IdNum 4, IdNum 5]"
    by (simp add: post_a_def post_b_def post_c_def post_d_def)
  from setAll_normalized [of sample_toISOString frozen_clock "[post_a, post_c, post_d, post_b]"
      sample_numberToString sample_localeCompare]
    1 2 3 sample_shaped collates_sample
  show ?thesis by blast
qed

text \<open>The snapshot of the sample cache is that of its three posts.\<close>

lemma sample_state_shaped:
  "getPosts_transformResponse sample_numberToString sample_localeCompare sample_toISOString
     frozen_clock [Some post_a, Some post_c, Some post_b] = Inr sample_state"
  by (simp add: getPosts_transformResponse_def postsAdapter_setAll_def setAll_def
      sortComparer_def sample_localeCompare_def dateText_def propertyKey_def
      sample_numberToString_def sample_state_def post_a'_def post_c'_def
      frozen_clock_def sample_toISOString_def post_a_def post_b_def post_c_def
      backfill_def falsy_def sub_minutes_def)

section \<open>The tags of a query by user\<close>

text \<open>
  Claim C5. For every successful result of \<^verbatim>\<open>getPostsByUserId\<close> the tags provided are
  exactly \<^verbatim>\<open>{ type: 'Post', id }\<close> for the ids of the result, in their order. For the
  records the transport returns, which have pairwise distinct ids (distinct as
  property keys) none of which is the string \<^verbatim>\<open>"LIST"\<close>, the shaping step returns a
  snapshot whose ids are the ids of the records, as many as there are records, and the
  tags provided for it hold no \<^verbatim>\<open>{ type: 'Post', id: "LIST" }\<close>.
\<close>

theorem getPostsByUserId_tags:
  assumes "distinct (map (\<lambda>p. propertyKey numberToString (post_id p)) raw)"
    and "IdStr ''LIST'' \<notin> post_id ` set raw"
  shows "getPostsByUserId_providesTags (Some result) =
      Inr (map (\<lambda>i. \<lparr>tag_type = ''Post'', tag_id = i\<rparr>) (ids result)) \<and>
    (\<exists>snap ts.
      getPostsByUserId_transformResponse numberToString localeCompare toISOString newDate
        (map Some raw) = Inr snap \<and>
      getPostsByUserId_providesTags (Some snap) = Inr ts \<and>
      set ts = (\<lambda>i. \<lparr>tag_type = ''Post'', tag_id = i\<rparr>) ` set (ids snap) \<and>
      \<lparr>tag_type = ''Post'', tag_id = IdStr ''LIST''\<rparr> \<notin> set ts \<and>
      set (ids snap) = post_id ` set raw \<and>
      length ts = length raw \<and>
      length (ids snap) = length raw)"
proof (intro conjI)
  show tags: "getPostsByUserId_providesTags (Some result) =
      Inr (map (\<lambda>i. \<lparr>tag_type = ''Post'', tag_id = i\<rparr>) (ids result))" for result
    by (simp add: getPostsByUserId_providesTags_def)
  obtain ps where ps: "loadedPosts toISOString newDate 1 (map Some raw) = Inr ps"
    using loadedPosts_objects [of toISOString newDate 1 raw] by blast
  have dated: "\<forall>p\<in>set ps. dated p"
    using ps by (rule loadedPosts_dated)
  have ids_ps: "map post_id ps = map post_id raw"
    using ps by (rule loadedPosts_ids)
  have "map (\<lambda>r. propertyKey numberToString (post_id r)) ps =
      map (\<lambda>r. propertyKey numberToString (post_id r)) raw"
    using ps by (rule loadedPosts_keys)
  with assms(1) have dist: "distinct (map (\<lambda>r. propertyKey numberToString (post_id r)) ps)"
    by simp
  from setAll_total [OF dated] obtain snap where
    res: "setAll numberToString (sortComparer localeCompare) initialState ps = Inr snap"
    by blast
  have tr: "getPostsByUserId_transformResponse numberToString localeCompare toISOString newDate
      (map Some raw) = Inr snap"
    using res by (simp add: getPostsByUserId_transformResponse_Inr [OF ps])
  have ms: "mset (ids snap) = mset (map post_id raw)"
    using snapshot_fresh_ids [OF res dist] ids_ps by simp
  then have set_ids: "set (ids snap) = post_id ` set raw"
    by (metis set_mset_mset set_map)
  have len: "length (ids snap) = length raw"
    using ms by (metis size_mset length_map)
  let ?ts = "map (\<lambda>i. \<lparr>tag_type = ''Post'', tag_id = i\<rparr>) (ids snap)"
  have no_list: "\<lparr>tag_type = ''Post'', tag_id = IdStr ''LIST''\<rparr> \<notin> set ?ts"
    using assms(2) set_ids by auto
  show "\<exists>snap ts.
      getPostsByUserId_transformResponse numberToString localeCompare toISOString newDate
        (map Some raw) = Inr snap \<and>
      getPostsByUserId_providesTags (Some snap) = Inr ts \<and>
      set ts = (\<lambda>i. \<lparr>tag_type = ''Post'', tag_id = i\<rparr>) ` set (ids snap) \<and>
      \<lparr>tag_type = ''Post'', tag_id = IdStr ''LIST''\<rparr> \<notin> set ts \<and>
      set (ids snap) = post_id ` set raw \<and>
      length ts = length raw \<and>
      length (ids snap) = length raw"
  proof (rule exI [where x = snap], rule exI [where x = ?ts], intro conjI)
    show "getPostsByUserId_providesTags (Some snap) = Inr ?ts" by (rule tags)
    show "set ?ts = (\<lambda>i. \<lparr>tag_type = ''Post'', tag_id = i\<rparr>) ` set (ids snap)" by simp
    show "length ?ts = length raw" using len by simp
  qed (fact tr no_list set_ids len)+
qed

text \<open>
  The theorem of C5 at a response of two posts with distinct ids, and at the snapshot
  of one post.
\<close>

theorem getPostsByUserId_tags_witness:
  "distinct (map (\<lambda>p. propertyKey sample_numberToString (post_id p)) [post_a, post_b]) \<and>
   IdStr ''LIST'' \<notin> post_id ` set [post_a, post_b] \<and>
   getPostsByUserId_transformResponse sample_numberToString sample_localeCompare
     sample_toISOString frozen_clock (map Some [post_a, post_b]) =
     Inr \<lparr>ids = [IdNum 5, IdNum 1],
          entities = [(''1'', post_a\<lparr>date := DateString ''2022-11-03T08:59:00.000Z'',
                                   reactions := Some zeroReactions\<rparr>),
                      (''5'', post_b)]\<rparr> \<and>
   getPostsByUserId_providesTags
     (Some \<lparr>ids = [IdNum 5, IdNum 1],
            entities = [(''1'', post_a\<lparr>date := DateString ''2022-11-03T08:59:00.000Z'',
                                     reactions := Some zeroReactions\<rparr>),
                        (''5'', post_b)]\<rparr>) =
     Inr [\<lparr>tag_type = ''Post'', tag_id = IdNum 5\<rparr>, \<lparr>tag_type = ''Post'', tag_id = IdNum 1\<rparr>] \<and>
   getPostsByUserId_providesTags (Some user_state) = Inr [\<lparr>tag_type = ''Post'', tag_id = IdNum 1\<rparr>]"
proof -
  have 1: "distinct (map (\<lambda>p. propertyKey sample_numberToString (post_id p)) [post_a, post_b])"
    by (simp add: post_a_def post_b_def propertyKey_def sample_numberToString_def)
  have 2: "IdStr ''LIST'' \<notin> post_id ` set [post_a, post_b]"
    by (simp add: post_a_def post_b_def)
  have 3: "getPostsByUserId_transformResponse sample_numberToString sample_localeCompare
     sample_toISOString frozen_clock (map Some [post_a, post_b]) =
     Inr \<lparr>ids = [IdNum 5, IdNum 1],
          entities = [(''1'', post_a\<lparr>date := DateString ''2022-11-03T08:59:00.000Z'',
                                   reactions := Some zeroReactions\<rparr>),
                      (''5'', post_b)]\<rparr>"
    by (simp add: getPostsByUserId_transformResponse_def postsAdapter_setAll_def setAll_def
      sortComparer_def sample_localeCompare_def dateText_def propertyKey_def
      sample_numberToString_def
      frozen_clock_def sample_toISOString_def post_a_def post_b_def
      backfill_def falsy_def sub_minutes_def)
  have 4: "ids user_state = [IdNum 1]"
    by (simp add: user_state_def)
  from getPostsByUserId_tags [OF 1 2, of user_state] getPostsByUserId_tags [OF 1 2]
    1 2 3 4
  show ?thesis by simp
qed

section \<open>The request of addNewPost\<close>

text \<open>
  Claim C7. The request of \<^verbatim>\<open>addNewPost\<close> is a function of the argument (and of the
  clock): its path is \<^verbatim>\<open>/posts\<close>, its method \<^verbatim>\<open>POST\<close>; in its body \<^verbatim>\<open>userId\<close> is the numeric
  coercion of the argument's \<^verbatim>\<open>userId\<close>, \<^verbatim>\<open>date\<close> the formatted reading of the clock and
  \<^verbatim>\<open>reactions\<close> the five counters at zero; every other property has the value it has in
  the argument, and the body has no property beyond those of the argument and these
  three.
\<close>

theorem addNewPost_query_request:
  "url (addNewPost_query toNumber toISOString now initialPost) = ''/posts'' \<and>
   http_method (addNewPost_query toNumber toISOString now initialPost) = ''POST'' \<and>
   map_of (body (addNewPost_query toNumber toISOString now initialPost)) ''userId'' =
     Some (toNumber (get_prop initialPost ''userId'')) \<and>
   map_of (body (addNewPost_query toNumber toISOString now initialPost)) ''date'' =
     Some (JStr (toISOString now)) \<and>
   map_of (body (addNewPost_query toNumber toISOString now initialPost)) ''reactions'' =
     Some (JObj [(''thumbsUp'', JNum 0), (''wow'', JNum 0), (''heart'', JNum 0),
                 (''rocket'', JNum 0), (''coffee'', JNum 0)]) \<and>
   (\<forall>k. k \<notin> {''userId'', ''date'', ''reactions''} \<longrightarrow>
      map_of (body (addNewPost_query toNumber toISOString now initialPost)) k = map_of initialPost k) \<and>
   fst ` set (body (addNewPost_query toNumber toISOString now initialPost)) =
     fst ` set initialPost \<union> {''userId'', ''date'', ''reactions''}"
  by (auto simp: addNewPost_query_def update_conv' dom_update)

text \<open>
  The theorem of C7 at the argument \<^verbatim>\<open>{ title: "t", body: "b", userId: "3" }\<close>: the
  title is carried through, \<^verbatim>\<open>userId\<close> becomes the number 3 in its place, and \<^verbatim>\<open>date\<close> and
  \<^verbatim>\<open>reactions\<close> are appended.
\<close>

theorem addNewPost_query_request_witness:
  "''title'' \<notin> {''userId'', ''date'', ''reactions''} \<and>
   map_of (body (addNewPost_query sample_Number sample_toISOString 1667466000000 sample_initialPost))
     ''title'' = Some (JStr ''t'') \<and>
   addNewPost_query sample_Number sample_toISOString 1667466000000 sample_initialPost =
     \<lparr>url = ''/posts'', http_method = ''POST'',
      body = [(''title'', JStr ''t''), (''body'', JStr ''b''), (''userId'', JNum 3),
              (''date'', JStr ''2022-11-03T09:00:00.000Z''),
              (''reactions'', JObj [(''thumbsUp'', JNum 0), (''wow'', JNum 0), (''heart'', JNum 0),
                 (''rocket'', JNum 0), (''coffee'', JNum 0)])]\<rparr>"
  using addNewPost_query_request [of sample_Number sample_toISOString 1667466000000 sample_initialPost]
  by (simp add: addNewPost_query_def sample_Number_def sample_toISOString_def
      sample_initialPost_def get_prop_def)

section \<open>Invalidation\<close>

text \<open>What the executor does with the tags of a mutation.\<close>

lemma resolve_Nil: "resolve [] idx = {}"
  by (simp add: resolve_def)

lemma resolve_single: "resolve [t] idx = idx t"
  by (simp add: resolve_def)

lemma invalidate_Nil: "invalidate [] s = s"
  by (simp add: invalidate_def resolve_Nil)

lemma invalidate_queries:
  "queries (invalidate ts s) k =
     (if k \<in> resolve ts (tagIndex s)
      then (case queries s k of
              None \<Rightarrow> None
            | Some e \<Rightarrow> if 0 < subscriberCount e then Some (e\<lparr>status := Loading\<rparr>) else None)
      else queries s k)"
  by (simp add: invalidate_def)

lemma invalidate_tagIndex: "tagIndex (invalidate ts s) = tagIndex s"
  by (simp add: invalidate_def)

lemma mutate_AddNewPost:
  "mutate nts (AddNewPost a) Fulfilled s = invalidate addNewPost_invalidatesTags s"
  by (simp add: mutate_def)

lemma mutate_UpdatePost:
  "mutate nts (UpdatePost a) Fulfilled s = invalidate (updatePost_invalidatesTags a) s"
  by (simp add: mutate_def)

lemma mutate_DeletePost:
  "mutate nts (DeletePost a) Fulfilled s = invalidate (deletePost_invalidatesTags a) s"
  by (simp add: mutate_def)

text \<open>
  The invariant of the tag index holds in the empty cache and in the sample cache, and
  every step of the cache keeps it.
\<close>

lemma indexed_emptyCache: "indexed emptyCache"
  by (simp add: indexed_def emptyCache_def)

lemma indexed_queryFulfilled:
  assumes "indexed s"
  shows "indexed (queryFulfilled key result newTags s)"
proof (cases "queries s key")
  case None
  with assms show ?thesis
    by (auto simp: indexed_def queryFulfilled_def reconcile_def)
next
  case (Some e)
  with assms show ?thesis
    by (auto simp: indexed_def queryFulfilled_def reconcile_def)
qed

lemma indexed_invalidate: "indexed s \<Longrightarrow> indexed (invalidate ts s)"
  by (auto simp: indexed_def invalidate_def split: if_splits option.splits)

lemma indexed_updateQueryData: "indexed s \<Longrightarrow> indexed (fst (updateQueryData key recipe s))"
  by (auto simp: indexed_def updateQueryData_def split: option.splits if_splits)

lemma indexed_undo: "indexed s \<Longrightarrow> indexed (undo pr s)"
  by (auto simp: indexed_def undo_def split: option.splits if_splits)

lemma indexed_startQuery: "indexed s \<Longrightarrow> indexed (fst (startQuery key s))"
  by (auto simp: indexed_def startQuery_def split: option.splits if_splits)

lemma indexed_mutate: "indexed s \<Longrightarrow> indexed (mutate nts m out s)"
  by (cases m; cases out)
    (simp_all add: mutate_def indexed_invalidate addReaction_onQueryStarted_def
      addReaction_settled_def case_prod_unfold indexed_updateQueryData indexed_undo)

lemma indexed_sample_cache: "indexed sample_cache"
  by (auto simp: indexed_def sample_cache_def split: if_splits)

text \<open>
  Claim C6. The invalidation tags of \<^verbatim>\<open>deletePost\<close> and of \<^verbatim>\<open>updatePost\<close> are exactly the
  one tag \<^verbatim>\<open>{ type: 'Post', id: arg.id }\<close>. On success the executor resolves them to the
  entries registered under that tag, and each of these is stale: fetched again when it
  has a subscriber, dropped from the cache when it has none.
\<close>

theorem deletePost_updatePost_invalidate:
  "deletePost_invalidatesTags arg = [\<lparr>tag_type = ''Post'', tag_id = arg_id arg\<rparr>] \<and>
   updatePost_invalidatesTags initialPost = [\<lparr>tag_type = ''Post'', tag_id = post_id initialPost\<rparr>] \<and>
   resolve (invalidatesTags (DeletePost arg)) (tagIndex s) =
     tagIndex s \<lparr>tag_type = ''Post'', tag_id = arg_id arg\<rparr> \<and>
   resolve (invalidatesTags (UpdatePost initialPost)) (tagIndex s) =
     tagIndex s \<lparr>tag_type = ''Post'', tag_id = post_id initialPost\<rparr> \<and>
   (\<forall>k e. k \<in> tagIndex s \<lparr>tag_type = ''Post'', tag_id = arg_id arg\<rparr> \<and> queries s k = Some e \<longrightarrow>
      queries (mutate numberToString (DeletePost arg) Fulfilled s) k =
        (if 0 < subscriberCount e then Some (e\<lparr>status := Loading\<rparr>) else None)) \<and>
   (\<forall>k e. k \<in> tagIndex s \<lparr>tag_type = ''Post'', tag_id = post_id initialPost\<rparr> \<and> queries s k = Some e \<longrightarrow>
      queries (mutate numberToString (UpdatePost initialPost) Fulfilled s) k =
        (if 0 < subscriberCount e then Some (e\<lparr>status := Loading\<rparr>) else None))"
  by (simp add: deletePost_invalidatesTags_def updatePost_invalidatesTags_def resolve_single
      mutate_DeletePost mutate_UpdatePost invalidate_queries)

text \<open>
  The theorem of C6 at \<^verbatim>\<open>deletePost({ id: 5 })\<close>, which invalidates the \<^verbatim>\<open>getPosts\<close> entry
  of the sample cache (it provides \<^verbatim>\<open>{ type: 'Post', id: 5 }\<close> and has a subscriber), and at
  \<^verbatim>\<open>updatePost\<close> of post 1, which drops the entry of the query by user.
\<close>

theorem deletePost_updatePost_invalidate_witness:
  "deletePost_invalidatesTags \<lparr>arg_id = IdNum 5\<rparr> = [\<lparr>tag_type = ''Post'', tag_id = IdNum 5\<rparr>] \<and>
   (''getPosts'', ArgUndefined) \<in> tagIndex sample_cache \<lparr>tag_type = ''Post'', tag_id = IdNum 5\<rparr> \<and>
   queries sample_cache (''getPosts'', ArgUndefined) = Some getPosts_entry \<and>
   queries (mutate sample_numberToString (DeletePost \<lparr>arg_id = IdNum 5\<rparr>) Fulfilled sample_cache) (''getPosts'', ArgUndefined) =
     Some (getPosts_entry\<lparr>status := Loading\<rparr>) \<and>
   (''getPostsByUserId'', ArgId (IdNum 7)) \<in> tagIndex sample_cache \<lparr>tag_type = ''Post'', tag_id = IdNum 1\<rparr> \<and>
   queries sample_cache (''getPostsByUserId'', ArgId (IdNum 7)) = Some byUser_entry \<and>
   queries (mutate sample_numberToString (UpdatePost post_a') Fulfilled sample_cache) (''getPostsByUserId'', ArgId (IdNum 7)) = None"
proof -
  have 1: "(''getPosts'', ArgUndefined) \<in> tagIndex sample_cache \<lparr>tag_type = ''Post'', tag_id = IdNum 5\<rparr>"
    by (simp add: sample_cache_def getPosts_entry_def post_tag_def)
  have 2: "queries sample_cache (''getPosts'', ArgUndefined) = Some getPosts_entry"
    by (simp add: sample_cache_def)
  have 3: "(''getPostsByUserId'', ArgId (IdNum 7)) \<in> tagIndex sample_cache \<lparr>tag_type = ''Post'', tag_id = IdNum 1\<rparr>"
    by (simp add: sample_cache_def byUser_entry_def post_tag_def)
  have 4: "queries sample_cache (''getPostsByUserId'', ArgId (IdNum 7)) = Some byUser_entry"
    by (simp add: sample_cache_def)
  have 5: "post_id post_a' = IdNum 1"
    by (simp add: post_a'_def post_a_def)
  have 6: "subscriberCount getPosts_entry = 1" "subscriberCount byUser_entry = 0"
    by (simp_all add: getPosts_entry_def byUser_entry_def)
  from deletePost_updatePost_invalidate [of "\<lparr>arg_id = IdNum 5\<rparr>" post_a' sample_cache
      sample_numberToString] 1 2 3 4 5 6
  show ?thesis by simp
qed

text \<open>The tags of \<^verbatim>\<open>getPosts\<close> for a successful result.\<close>

lemma getPosts_providesTags_Some:
  "getPosts_providesTags (Some r) =
     Inr (\<lparr>tag_type = ''Post'', tag_id = IdStr ''LIST''\<rparr>
          # map (\<lambda>i. \<lparr>tag_type = ''Post'', tag_id = i\<rparr>) (ids r))"
  by (simp add: getPosts_providesTags_def)

text \<open>
  Claim C4. \<^verbatim>\<open>addNewPost\<close> declares the one invalidation tag
  \<^verbatim>\<open>{ type: 'Post', id: "LIST" }\<close>; the tags \<^verbatim>\<open>getPosts\<close> provides for a successful result hold
  that tag and \<^verbatim>\<open>{ type: 'Post', id }\<close> for every id of the result. So in every cache whose
  tag index registers the entries under their tags, a successful \<^verbatim>\<open>addNewPost\<close> resolves
  to the \<^verbatim>\<open>getPosts\<close> entry, and the entry is no longer served from the cache as it was
  before (a query of \<^verbatim>\<open>getPosts\<close> issued no transport call then): it is fetched again at
  once when it has a subscriber, and dropped when it has none, so that the next query
  of \<^verbatim>\<open>getPosts\<close> issues a transport call.
\<close>

theorem addNewPost_invalidates_getPosts:
  "addNewPost_invalidatesTags = [\<lparr>tag_type = ''Post'', tag_id = IdStr ''LIST''\<rparr>] \<and>
   (\<exists>ts. getPosts_providesTags (Some result) = Inr ts \<and>
      \<lparr>tag_type = ''Post'', tag_id = IdStr ''LIST''\<rparr> \<in> set ts \<and>
      (\<forall>i\<in>set (ids result). \<lparr>tag_type = ''Post'', tag_id = i\<rparr> \<in> set ts)) \<and>
   (indexed s \<and> queries s (''getPosts'', ArgUndefined) = Some e \<and>
    getPosts_providesTags (Some result) = Inr (tags e) \<longrightarrow>
      (''getPosts'', ArgUndefined) \<in> resolve (invalidatesTags (AddNewPost initialPost)) (tagIndex s) \<and>
      queries (mutate numberToString (AddNewPost initialPost) Fulfilled s) (''getPosts'', ArgUndefined) =
        (if 0 < subscriberCount e then Some (e\<lparr>status := Loading\<rparr>) else None) \<and>
      \<not> snd (startQuery (''getPosts'', ArgUndefined) s) \<and>
      (subscriberCount e = 0 \<longrightarrow>
         snd (startQuery (''getPosts'', ArgUndefined) (mutate numberToString (AddNewPost initialPost) Fulfilled s))))"
proof (intro conjI impI)
  show "addNewPost_invalidatesTags = [\<lparr>tag_type = ''Post'', tag_id = IdStr ''LIST''\<rparr>]"
    by (simp add: addNewPost_invalidatesTags_def)
  show "\<exists>ts. getPosts_providesTags (Some result) = Inr ts \<and>
      \<lparr>tag_type = ''Post'', tag_id = IdStr ''LIST''\<rparr> \<in> set ts \<and>
      (\<forall>i\<in>set (ids result). \<lparr>tag_type = ''Post'', tag_id = i\<rparr> \<in> set ts)"
    by (simp add: getPosts_providesTags_Some)
next
  assume a: "indexed s \<and> queries s (''getPosts'', ArgUndefined) = Some e \<and>
    getPosts_providesTags (Some result) = Inr (tags e)"
  then have "tags e = \<lparr>tag_type = ''Post'', tag_id = IdStr ''LIST''\<rparr>
      # map (\<lambda>i. \<lparr>tag_type = ''Post'', tag_id = i\<rparr>) (ids result)"
    by (simp add: getPosts_providesTags_Some)
  then have "\<lparr>tag_type = ''Post'', tag_id = IdStr ''LIST''\<rparr> \<in> set (tags e)"
    by simp
  with a have reg: "(''getPosts'', ArgUndefined) \<in> tagIndex s \<lparr>tag_type = ''Post'', tag_id = IdStr ''LIST''\<rparr>"
    unfolding indexed_def by blast
  then show hit: "(''getPosts'', ArgUndefined) \<in> resolve (invalidatesTags (AddNewPost initialPost)) (tagIndex s)"
    by (simp add: addNewPost_invalidatesTags_def resolve_single)
  with a show after: "queries (mutate numberToString (AddNewPost initialPost) Fulfilled s) (''getPosts'', ArgUndefined) =
        (if 0 < subscriberCount e then Some (e\<lparr>status := Loading\<rparr>) else None)"
    by (simp add: mutate_AddNewPost invalidate_queries)
  from a show "\<not> snd (startQuery (''getPosts'', ArgUndefined) s)"
    by (simp add: startQuery_def)
  assume "subscriberCount e = 0"
  with after show "snd (startQuery (''getPosts'', ArgUndefined) (mutate numberToString (AddNewPost initialPost) Fulfilled s))"
    by (simp add: startQuery_def)
qed

text \<open>
  The theorem of C4 at the sample cache, where the entry has a subscriber and is
  fetched again, and at the cache whose entry has none, where the entry is dropped and
  the next query fetches.
\<close>

theorem addNewPost_invalidates_getPosts_witness:
  "IdNum 5 \<in> set (ids sample_state) \<and>
   getPosts_providesTags (Some sample_state) = Inr (tags getPosts_entry) \<and>
   indexed sample_cache \<and>
   queries sample_cache (''getPosts'', ArgUndefined) = Some getPosts_entry \<and>
   (''getPosts'', ArgUndefined) \<in> resolve (invalidatesTags (AddNewPost sample_initialPost)) (tagIndex sample_cache) \<and>
   queries (mutate sample_numberToString (AddNewPost sample_initialPost) Fulfilled sample_cache) (''getPosts'', ArgUndefined) =
     Some (getPosts_entry\<lparr>status := Loading\<rparr>) \<and>
   \<not> snd (startQuery (''getPosts'', ArgUndefined) sample_cache) \<and>
   indexed unwatched_cache \<and>
   queries unwatched_cache (''getPosts'', ArgUndefined) = Some (getPosts_entry\<lparr>subscriberCount := 0\<rparr>) \<and>
   queries (mutate sample_numberToString (AddNewPost sample_initialPost) Fulfilled unwatched_cache) (''getPosts'', ArgUndefined) =
     None \<and>
   snd (startQuery (''getPosts'', ArgUndefined) (mutate sample_numberToString (AddNewPost sample_initialPost) Fulfilled unwatched_cache))"
proof -
  have 1: "IdNum 5 \<in> set (ids sample_state)"
    by (simp add: sample_state_def)
  have 2: "getPosts_providesTags (Some sample_state) = Inr (tags getPosts_entry)"
    by (simp add: getPosts_providesTags_Some sample_state_def getPosts_entry_def post_tag_def)
  have 3: "queries sample_cache (''getPosts'', ArgUndefined) = Some getPosts_entry"
    by (simp add: sample_cache_def)
  have 4: "subscriberCount getPosts_entry = 1"
    by (simp add: getPosts_entry_def)
  have 5: "indexed unwatched_cache"
    unfolding unwatched_cache_def by (rule indexed_queryFulfilled) (rule indexed_emptyCache)
  have 6: "queries unwatched_cache (''getPosts'', ArgUndefined) =
      Some (getPosts_entry\<lparr>subscriberCount := 0\<rparr>)"
    by (simp add: unwatched_cache_def queryFulfilled_def emptyCache_def getPosts_entry_def)
  have 7: "getPosts_providesTags (Some sample_state) =
      Inr (tags (getPosts_entry\<lparr>subscriberCount := 0\<rparr>))"
    using 2 by simp
  from addNewPost_invalidates_getPosts [of sample_state sample_cache getPosts_entry sample_initialPost
      sample_numberToString]
    addNewPost_invalidates_getPosts [of sample_state unwatched_cache
      "getPosts_entry\<lparr>subscriberCount := 0\<rparr>" sample_initialPost sample_numberToString]
    1 2 3 4 5 6 7 indexed_sample_cache
  show ?thesis by simp
qed

section \<open>The optimistic update of addReaction\<close>

lemma addReaction_recipe_absent:
  assumes "propertyKey numberToString postId \<notin> fst ` set (entities draft)"
  shows "addReaction_recipe numberToString postId rs draft = draft"
proof -
  have "map_of (entities draft) (propertyKey numberToString postId) = None"
    using assms by (simp add: map_of_eq_None_iff)
  then show ?thesis by (simp add: addReaction_recipe_def)
qed

lemma addReaction_recipe_present:
  "map_of (entities draft) (propertyKey numberToString postId) = Some p \<Longrightarrow>
   addReaction_recipe numberToString postId rs draft =
     draft\<lparr>entities := AList.update (propertyKey numberToString postId) (p\<lparr>reactions := Some rs\<rparr>) (entities draft)\<rparr>"
  by (simp add: addReaction_recipe_def)

lemma updateQueryData_id:
  assumes "queries s key = Some e" "data e = Some d" "recipe d = d"
  shows "updateQueryData key recipe s = (s, Some (key, d))"
proof -
  have "e\<lparr>data := Some d\<rparr> = e" using assms(2) by simp
  then have "(queries s)(key \<mapsto> e\<lparr>data := Some (recipe d)\<rparr>) = queries s"
    using assms(1,3) by (simp add: map_upd_triv)
  then show ?thesis using assms(1,2) by (simp add: updateQueryData_def)
qed

lemma updateQueryData_data:
  "queries s key = Some e \<Longrightarrow> data e = Some d \<Longrightarrow>
   updateQueryData key recipe s =
     (s\<lparr>queries := (queries s)(key \<mapsto> e\<lparr>data := Some (recipe d)\<rparr>)\<rparr>, Some (key, d))"
  by (simp add: updateQueryData_def)

lemma undo_updateQueryData:
  "undo (snd (updateQueryData key recipe s)) (fst (updateQueryData key recipe s)) = s"
proof (cases "queries s key")
  case None
  then show ?thesis by (simp add: updateQueryData_def undo_def)
next
  case (Some e)
  show ?thesis
  proof (cases "data e")
    case None
    with Some show ?thesis by (simp add: updateQueryData_def undo_def)
  next
    case d: (Some d)
    then have "e\<lparr>data := Some d\<rparr> = e" by simp
    then have "(queries s)(key \<mapsto> e\<lparr>data := Some d\<rparr>) = queries s"
      using Some by (simp add: map_upd_triv)
    with Some d show ?thesis by (simp add: updateQueryData_def undo_def)
  qed
qed

lemma selectState_data:
  "queries s (''getPosts'', ArgUndefined) = Some e \<Longrightarrow> data e = Some d \<Longrightarrow> selectState s = d"
  by (simp add: selectState_def selectPostsData_def selectPostsResult_def select_def)

text \<open>
  Claim C9. For a \<^verbatim>\<open>postId\<close> whose property key is not a key of \<^verbatim>\<open>entities\<close> the recipe of
  \<^verbatim>\<open>addReaction\<close> returns the draft as it is (the recipe has no failing branch); the
  patch then leaves the whole cache unchanged, and so does the mutation, whatever its
  outcome.
\<close>

theorem addReaction_absent_post_noop:
  "(propertyKey numberToString postId \<notin> fst ` set (entities draft) \<longrightarrow> addReaction_recipe numberToString postId newReactions draft = draft) \<and>
   (queries s (''getPosts'', ArgUndefined) = Some e \<and> data e = Some draft \<and>
    propertyKey numberToString postId \<notin> fst ` set (entities draft) \<longrightarrow>
      fst (addReaction_onQueryStarted numberToString postId newReactions s) = s \<and>
      mutate numberToString (AddReaction postId newReactions) Fulfilled s = s \<and>
      mutate numberToString (AddReaction postId newReactions) Rejected s = s)"
proof (intro conjI impI)
  assume "propertyKey numberToString postId \<notin> fst ` set (entities draft)"
  then show "addReaction_recipe numberToString postId newReactions draft = draft"
    by (rule addReaction_recipe_absent)
next
  assume a: "queries s (''getPosts'', ArgUndefined) = Some e \<and> data e = Some draft \<and>
    propertyKey numberToString postId \<notin> fst ` set (entities draft)"
  then have "addReaction_recipe numberToString postId newReactions draft = draft"
    by (simp add: addReaction_recipe_absent)
  with a have st: "addReaction_onQueryStarted numberToString postId newReactions s =
      (s, Some ((''getPosts'', ArgUndefined), draft))"
    by (simp add: addReaction_onQueryStarted_def updateQueryData_id)
  then show "fst (addReaction_onQueryStarted numberToString postId newReactions s) = s" by simp
  show "mutate numberToString (AddReaction postId newReactions) Fulfilled s = s"
    by (simp add: mutate_def st invalidate_Nil addReaction_settled_def)
  have "e\<lparr>data := Some draft\<rparr> = e" using a by simp
  then have "(queries s)((''getPosts'', ArgUndefined) \<mapsto> e\<lparr>data := Some draft\<rparr>) = queries s"
    using a by (simp add: map_upd_triv)
  with a show "mutate numberToString (AddReaction postId newReactions) Rejected s = s"
    by (simp add: mutate_def st addReaction_settled_def undo_def)
qed

text \<open>
  The theorem of C9 at the sample cache and an id that no post has. The string \<^verbatim>\<open>"1"\<close> is
  the key of post 1, so a reaction sent with it is not such a case: the recipe sets the
  reactions of post 1.
\<close>

theorem addReaction_absent_post_noop_witness:
  "propertyKey sample_numberToString (IdNum 9) \<notin> fst ` set (entities sample_state) \<and>
   addReaction_recipe sample_numberToString (IdNum 9) zeroReactions sample_state = sample_state \<and>
   queries sample_cache (''getPosts'', ArgUndefined) = Some getPosts_entry \<and>
   data getPosts_entry = Some sample_state \<and>
   fst (addReaction_onQueryStarted sample_numberToString (IdNum 9) zeroReactions sample_cache) = sample_cache \<and>
   mutate sample_numberToString (AddReaction (IdNum 9) zeroReactions) Fulfilled sample_cache = sample_cache \<and>
   mutate sample_numberToString (AddReaction (IdNum 9) zeroReactions) Rejected sample_cache = sample_cache \<and>
   addReaction_recipe sample_numberToString (IdStr ''1'') sample_reactions sample_state =
     sample_state\<lparr>entities := [(''1'', post_a'\<lparr>reactions := Some sample_reactions\<rparr>),
                               (''3'', post_c'), (''5'', post_b)]\<rparr>"
proof -
  have 1: "propertyKey sample_numberToString (IdNum 9) \<notin> fst ` set (entities sample_state)"
    by (simp add: sample_state_def propertyKey_def sample_numberToString_def)
  have 2: "queries sample_cache (''getPosts'', ArgUndefined) = Some getPosts_entry"
    by (simp add: sample_cache_def)
  have 3: "data getPosts_entry = Some sample_state"
    by (simp add: getPosts_entry_def)
  have 4: "addReaction_recipe sample_numberToString (IdStr ''1'') sample_reactions sample_state =
     sample_state\<lparr>entities := [(''1'', post_a'\<lparr>reactions := Some sample_reactions\<rparr>),
                               (''3'', post_c'), (''5'', post_b)]\<rparr>"
    by (simp add: addReaction_recipe_def sample_state_def propertyKey_def)
  from addReaction_absent_post_noop [of sample_numberToString "IdNum 9" sample_state zeroReactions
      sample_cache getPosts_entry]
    1 2 3 4
  show ?thesis by simp
qed

text \<open>
  Claim C1. When the \<^verbatim>\<open>getPosts\<close> entry has data with a post under the key of \<^verbatim>\<open>postId\<close>, the first
  step of \<^verbatim>\<open>onQueryStarted\<close> (before the transport call settles) replaces the reactions of
  that post by the argument's reactions and retains the snapshot: a reader of the post
  sees the new reactions at once, every other post and \<^verbatim>\<open>ids\<close> are as before. When the
  call succeeds the patch stays. When it is rejected, \<^verbatim>\<open>undo\<close> restores the cache, and so
  the data of the entry, to exactly what they were.
\<close>

theorem addReaction_optimistic_rollback:
  assumes "queries s (''getPosts'', ArgUndefined) = Some e"
    and "data e = Some snap"
    and "map_of (entities snap) (propertyKey numberToString postId) = Some p"
  shows "addReaction_onQueryStarted numberToString postId newReactions s =
      (s\<lparr>queries := (queries s)((''getPosts'', ArgUndefined) \<mapsto>
           e\<lparr>data := Some (snap\<lparr>entities :=
                AList.update (propertyKey numberToString postId) (p\<lparr>reactions := Some newReactions\<rparr>) (entities snap)\<rparr>)\<rparr>)\<rparr>,
       Some ((''getPosts'', ArgUndefined), snap)) \<and>
    selectPostById numberToString (fst (addReaction_onQueryStarted numberToString postId newReactions s)) postId =
      Some (p\<lparr>reactions := Some newReactions\<rparr>) \<and>
    (\<forall>j. propertyKey numberToString j \<noteq> propertyKey numberToString postId \<longrightarrow>
       selectPostById numberToString (fst (addReaction_onQueryStarted numberToString postId newReactions s)) j = selectPostById numberToString s j) \<and>
    selectPostIds (fst (addReaction_onQueryStarted numberToString postId newReactions s)) = selectPostIds s \<and>
    addReaction_settled Fulfilled (snd (addReaction_onQueryStarted numberToString postId newReactions s))
      (fst (addReaction_onQueryStarted numberToString postId newReactions s)) =
      fst (addReaction_onQueryStarted numberToString postId newReactions s) \<and>
    addReaction_settled Rejected (snd (addReaction_onQueryStarted numberToString postId newReactions s))
      (fst (addReaction_onQueryStarted numberToString postId newReactions s)) = s \<and>
    selectPostsData (mutate numberToString (AddReaction postId newReactions) Rejected s) = Some snap \<and>
    mutate numberToString (AddReaction postId newReactions) Rejected s = s"
proof -
  let ?snap' = "snap\<lparr>entities :=
      AList.update (propertyKey numberToString postId) (p\<lparr>reactions := Some newReactions\<rparr>) (entities snap)\<rparr>"
  let ?s1 = "s\<lparr>queries := (queries s)((''getPosts'', ArgUndefined) \<mapsto> e\<lparr>data := Some ?snap'\<rparr>)\<rparr>"
  have started: "addReaction_onQueryStarted numberToString postId newReactions s =
      (?s1, Some ((''getPosts'', ArgUndefined), snap))"
    using assms
    by (simp add: addReaction_onQueryStarted_def updateQueryData_data addReaction_recipe_present)
  have st1: "selectState ?s1 = ?snap'"
    by (rule selectState_data [where e = "e\<lparr>data := Some ?snap'\<rparr>"]) simp_all
  have st: "selectState s = snap"
    using assms(1,2) by (rule selectState_data)
  have byId: "selectPostById numberToString ?s1 postId = Some (p\<lparr>reactions := Some newReactions\<rparr>)"
    by (simp add: selectPostById_def selectById_def st1 update_conv')
  have others: "\<forall>j. propertyKey numberToString j \<noteq> propertyKey numberToString postId \<longrightarrow> selectPostById numberToString ?s1 j = selectPostById numberToString s j"
    by (simp add: selectPostById_def selectById_def st1 st update_conv')
  have idsame: "selectPostIds ?s1 = selectPostIds s"
    by (simp add: selectPostIds_def selectIds_def st1 st)
  have undone: "addReaction_settled Rejected (snd (addReaction_onQueryStarted numberToString postId newReactions s))
      (fst (addReaction_onQueryStarted numberToString postId newReactions s)) = s"
    unfolding addReaction_onQueryStarted_def addReaction_settled_def
    by (simp add: undo_updateQueryData)
  have rejected: "mutate numberToString (AddReaction postId newReactions) Rejected s = s"
    using undone by (simp add: mutate_def case_prod_unfold)
  have dat: "selectPostsData s = Some snap"
    using assms(1,2) by (simp add: selectPostsData_def selectPostsResult_def select_def)
  show ?thesis
    unfolding rejected
    using byId others idsame undone dat
    by (simp add: started addReaction_settled_def)
qed

text \<open>The theorem of C1 at the sample cache, for post 1.\<close>

theorem addReaction_optimistic_rollback_witness:
  "queries sample_cache (''getPosts'', ArgUndefined) = Some getPosts_entry \<and>
   data getPosts_entry = Some sample_state \<and>
   map_of (entities sample_state) (propertyKey sample_numberToString (IdNum 1)) = Some post_a' \<and>
   selectPostById sample_numberToString (fst (addReaction_onQueryStarted sample_numberToString (IdNum 1) sample_reactions sample_cache)) (IdNum 1) =
     Some (post_a'\<lparr>reactions := Some sample_reactions\<rparr>) \<and>
   selectPostById sample_numberToString (fst (addReaction_onQueryStarted sample_numberToString (IdNum 1) sample_reactions sample_cache)) (IdNum 5) =
     selectPostById sample_numberToString sample_cache (IdNum 5) \<and>
   selectPostsData (mutate sample_numberToString (AddReaction (IdNum 1) sample_reactions) Rejected sample_cache) =
     Some sample_state \<and>
   mutate sample_numberToString (AddReaction (IdNum 1) sample_reactions) Rejected sample_cache = sample_cache"
proof -
  have 1: "queries sample_cache (''getPosts'', ArgUndefined) = Some getPosts_entry"
    by (simp add: sample_cache_def)
  have 2: "data getPosts_entry = Some sample_state"
    by (simp add: getPosts_entry_def)
  have 3: "map_of (entities sample_state) (propertyKey sample_numberToString (IdNum 1)) = Some post_a'"
    by (simp add: sample_state_def propertyKey_def sample_numberToString_def)
  have 4: "propertyKey sample_numberToString (IdNum 5) \<noteq> propertyKey sample_numberToString (IdNum 1)"
    by (simp add: propertyKey_def sample_numberToString_def)
  from addReaction_optimistic_rollback [OF 1 2 3, of sample_reactions] 1 2 3 4
  show ?thesis by blast
qed

text \<open>What \<^verbatim>\<open>updateQueryData\<close> leaves alone.\<close>

lemma updateQueryData_tagIndex: "tagIndex (fst (updateQueryData key recipe s)) = tagIndex s"
  by (simp add: updateQueryData_def split: option.splits)

lemma updateQueryData_other:
  "k \<noteq> key \<Longrightarrow> queries (fst (updateQueryData key recipe s)) k = queries s k"
  by (simp add: updateQueryData_def split: option.splits)

lemma updateQueryData_but_data:
  "map_option (\<lambda>e. e\<lparr>data := None\<rparr>) (queries (fst (updateQueryData key recipe s)) k) =
   map_option (\<lambda>e. e\<lparr>data := None\<rparr>) (queries s k)"
  by (simp add: updateQueryData_def split: option.splits)

text \<open>
  Claim C10. \<^verbatim>\<open>addReaction\<close> declares no invalidation tags, so whatever the outcome of the
  transport call nothing is resolved, the tag index is unchanged and every entry but
  that of \<^verbatim>\<open>getPosts\<close> with argument \<^verbatim>\<open>undefined\<close> is unchanged, in particular every entry
  of \<^verbatim>\<open>getPostsByUserId\<close>; of the \<^verbatim>\<open>getPosts\<close> entry nothing but the data changes (no
  entry starts loading).
\<close>

theorem addReaction_frame:
  "invalidatesTags (AddReaction postId newReactions) = [] \<and>
   resolve (invalidatesTags (AddReaction postId newReactions)) (tagIndex s) = {} \<and>
   tagIndex (mutate numberToString (AddReaction postId newReactions) out s) = tagIndex s \<and>
   (\<forall>k. k \<noteq> (''getPosts'', ArgUndefined) \<longrightarrow>
      queries (mutate numberToString (AddReaction postId newReactions) out s) k = queries s k) \<and>
   queries (mutate numberToString (AddReaction postId newReactions) out s) (''getPostsByUserId'', a) =
     queries s (''getPostsByUserId'', a) \<and>
   map_option (\<lambda>e. e\<lparr>data := None\<rparr>)
       (queries (mutate numberToString (AddReaction postId newReactions) out s) (''getPosts'', ArgUndefined)) =
     map_option (\<lambda>e. e\<lparr>data := None\<rparr>) (queries s (''getPosts'', ArgUndefined))"
proof (cases out)
  case Fulfilled
  have m: "mutate numberToString (AddReaction postId newReactions) Fulfilled s =
      fst (updateQueryData (''getPosts'', ArgUndefined) (addReaction_recipe numberToString postId newReactions) s)"
    by (simp add: mutate_def case_prod_unfold addReaction_onQueryStarted_def invalidate_Nil
        addReaction_settled_def)
  show ?thesis
    unfolding Fulfilled m
    by (simp add: resolve_Nil updateQueryData_tagIndex updateQueryData_other updateQueryData_but_data)
next
  case Rejected
  have m: "mutate numberToString (AddReaction postId newReactions) Rejected s = s"
    by (simp add: mutate_def case_prod_unfold addReaction_onQueryStarted_def
        addReaction_settled_def undo_updateQueryData)
  show ?thesis
    unfolding Rejected m by (simp add: resolve_Nil)
qed

text \<open>
  The theorem of C10 at the sample cache: after a reaction to post 1, successful or
  rejected, the entry of the query by user is what it was, with post 1 and its old
  reactions.
\<close>

theorem addReaction_frame_witness:
  "(''getPostsByUserId'', ArgId (IdNum 7)) \<noteq> (''getPosts'', ArgUndefined) \<and>
   queries (mutate sample_numberToString (AddReaction (IdNum 1) sample_reactions) Fulfilled sample_cache)
     (''getPostsByUserId'', ArgId (IdNum 7)) = Some byUser_entry \<and>
   queries (mutate sample_numberToString (AddReaction (IdNum 1) sample_reactions) Rejected sample_cache)
     (''getPostsByUserId'', ArgId (IdNum 7)) = Some byUser_entry \<and>
   selectById sample_numberToString user_state (IdNum 1) = Some post_a' \<and>
   tagIndex (mutate sample_numberToString (AddReaction (IdNum 1) sample_reactions) Fulfilled sample_cache) =
     tagIndex sample_cache \<and>
   tagIndex (mutate sample_numberToString (AddReaction (IdNum 1) sample_reactions) Rejected sample_cache) =
     tagIndex sample_cache"
proof -
  have 1: "queries sample_cache (''getPostsByUserId'', ArgId (IdNum 7)) = Some byUser_entry"
    by (simp add: sample_cache_def)
  have 2: "selectById sample_numberToString user_state (IdNum 1) = Some post_a'"
    by (simp add: selectById_def user_state_def propertyKey_def sample_numberToString_def)
  from addReaction_frame [of "IdNum 1" sample_reactions sample_cache sample_numberToString Fulfilled
      "ArgId (IdNum 7)"]
    addReaction_frame [of "IdNum 1" sample_reactions sample_cache sample_numberToString Rejected
      "ArgId (IdNum 7)"] 1 2
  show ?thesis by simp
qed

section \<open>Selectors\<close>

text \<open>
  Claim C8. When the cache has no \<^verbatim>\<open>getPosts\<close> entry, or the entry has no data yet, the
  three selectors read the initial state and return its defaults: no posts, no ids, no
  post for any id. And the selectors depend on the cache through the data of the entry
  alone.
\<close>

theorem selectors_default:
  "((queries s (''getPosts'', ArgUndefined) = None \<or>
     (\<exists>e. queries s (''getPosts'', ArgUndefined) = Some e \<and> data e = None)) \<longrightarrow>
      selectState s = initialState \<and> selectAllPosts numberToString s = [] \<and> selectPostIds s = [] \<and>
      selectPostById numberToString s i = None) \<and>
   (selectPostsData s = selectPostsData s' \<longrightarrow>
      selectAllPosts numberToString s = selectAllPosts numberToString s' \<and> selectPostIds s = selectPostIds s' \<and>
      selectPostById numberToString s i = selectPostById numberToString s' i)"
proof (intro conjI impI)
  assume "queries s (''getPosts'', ArgUndefined) = None \<or>
     (\<exists>e. queries s (''getPosts'', ArgUndefined) = Some e \<and> data e = None)"
  then have "selectPostsData s = None"
    by (auto simp: selectPostsData_def selectPostsResult_def select_def)
  then have st: "selectState s = initialState"
    by (simp add: selectState_def)
  then show "selectState s = initialState" .
  show "selectAllPosts numberToString s = []"
    by (simp add: selectAllPosts_def selectAll_def st initialState_def getInitialState_def)
  show "selectPostIds s = []"
    by (simp add: selectPostIds_def selectIds_def st initialState_def getInitialState_def)
  show "selectPostById numberToString s i = None"
    by (simp add: selectPostById_def selectById_def st initialState_def getInitialState_def)
next
  assume "selectPostsData s = selectPostsData s'"
  then have st: "selectState s = selectState s'"
    by (simp add: selectState_def)
  show "selectAllPosts numberToString s = selectAllPosts numberToString s'"
    by (simp add: selectAllPosts_def st)
  show "selectPostIds s = selectPostIds s'"
    by (simp add: selectPostIds_def st)
  show "selectPostById numberToString s i = selectPostById numberToString s' i"
    by (simp add: selectPostById_def st)
qed

text \<open>
  The theorem of C8 at the empty cache and at a cache whose \<^verbatim>\<open>getPosts\<close> entry is loading;
  in the sample cache the selectors return the ids and the posts of the snapshot.
\<close>

theorem selectors_default_witness:
  "queries emptyCache (''getPosts'', ArgUndefined) = None \<and>
   selectAllPosts sample_numberToString emptyCache = [] \<and> selectPostIds emptyCache = [] \<and>
   selectPostById sample_numberToString emptyCache (IdNum 1) = None \<and>
   queries loading_cache (''getPosts'', ArgUndefined) =
     Some \<lparr>status = Loading, data = None, error_info = None, tags = [], subscriberCount = 1\<rparr> \<and>
   selectAllPosts sample_numberToString loading_cache = [] \<and> selectPostIds loading_cache = [] \<and>
   selectPostById sample_numberToString loading_cache (IdNum 1) = None \<and>
   selectPostsData emptyCache = selectPostsData loading_cache \<and>
   selectPostIds sample_cache = [IdNum 5, IdNum 1, IdNum 3] \<and>
   selectAllPosts sample_numberToString sample_cache = [Some post_b, Some post_a', Some post_c']"
proof -
  have 1: "queries emptyCache (''getPosts'', ArgUndefined) = None"
    by (simp add: emptyCache_def)
  have 2: "queries loading_cache (''getPosts'', ArgUndefined) =
     Some \<lparr>status = Loading, data = None, error_info = None, tags = [], subscriberCount = 1\<rparr>"
    by (simp add: loading_cache_def)
  have 3: "selectPostsData emptyCache = selectPostsData loading_cache"
    by (simp add: selectPostsData_def selectPostsResult_def select_def 1 2)
  have 4: "selectState sample_cache = sample_state"
    by (simp add: selectState_def selectPostsData_def selectPostsResult_def select_def
        sample_cache_def getPosts_entry_def)
  have 5: "selectPostIds sample_cache = [IdNum 5, IdNum 1, IdNum 3]"
    by (simp add: selectPostIds_def selectIds_def 4 sample_state_def)
  have 6: "selectAllPosts sample_numberToString sample_cache = [Some post_b, Some post_a', Some post_c']"
    by (simp add: selectAllPosts_def selectAll_def 4 sample_state_def propertyKey_def
        sample_numberToString_def)
  from selectors_default [of emptyCache sample_numberToString "IdNum 1" loading_cache]
    selectors_default [of loading_cache sample_numberToString "IdNum 1" emptyCache] 1 2 3 5 6
  show ?thesis by simp
qed

end
